theory Spec2Isabelle
  imports
    Complex_Main
    "HOL-Library.AList"
    "HOL-Library.Char_ord"
    "HOL-Library.List_Lexorder"
    "HOL-Library.Log_Nat"
    "HOL-Library.Product_Lexorder"
begin

section \<open>The coupon service of main.py\<close>

text \<open>
  Conventions of the embedding.
  \<^item> A Python \<open>float\<close> is an IEEE double (\<open>pyfloat\<close>): a finite value, one of the two
    infinities, or NaN. Every arithmetic operation computes the exact result and rounds it
    to the nearest double, a tie going to the even mantissa (\<open>fl\<close>); it overflows to an
    infinity and underflows through the subnormal numbers. Comparisons with NaN are false.
    The two zeros are one value (the program never tells them apart). An input
    \<open>Finite x\<close> stands for the double \<open>x\<close>; every operation returns a double.
  \<^item> Python \<open>int\<close> is \<open>int\<close>; turning an \<open>int\<close> into a \<open>float\<close> raises \<open>OverflowError\<close>
    when it does not fit. A \<open>datetime\<close> is an instant on the UTC time line, counted in
    microseconds, so that comparing two datetimes is comparing two integers.
  \<^item> \<open>str\<close> is \<open>string\<close>, restricted to ASCII text: \<open>strip\<close> and \<open>upper\<close> treat the ASCII
    white space and the letters a to z, every other character is left alone.
  \<^item> A \<open>dict\<close> is an association list in insertion order with distinct keys: the global
    \<open>coupons\<close> and each coupon's \<open>usage_count\<close>.
  \<^item> \<open>now_utc()\<close> reads the wall clock. The value of each reading is an input of the model:
    \<open>redeem\<close> reads the clock once, \<open>best_coupon\<close> once at its start and once more for every
    stored coupon, so it takes the sequence of readings, indexed from 0.
  \<^item> The built-in \<open>sum\<close> over floats is an input of the model too (\<open>fsum\<close>): CPython adds
    from left to right up to version 3.11 and compensates the rounding errors from 3.12 on.
    \<open>sum_left\<close> is the first of the two; on a list of one float both give that float.
  \<^item> \<open>list.sort\<close> is a stable sort by insertion as long as no sort key holds NaN; what
    it leaves first when one does is an input of the model too (\<open>nan_first\<close>).
  \<^item> A raised exception is the left summand of the result; every endpoint returns its
    outcome together with the store it leaves behind.
\<close>

subsection \<open>Floats\<close>

datatype pyfloat = Finite real | PInf | NInf | NaN

text \<open>\<open>pow2 k\<close> is 2 to the power \<open>k\<close>; \<open>expo x\<close> is the binary exponent of \<open>x \<noteq> 0\<close>.\<close>

definition pow2 :: "int \<Rightarrow> real" where
  "pow2 k = (if 0 \<le> k then 2 ^ nat k else 1 / 2 ^ nat (- k))"

definition expo :: "real \<Rightarrow> int" where
  "expo x =
     (if 1 \<le> \<bar>x\<bar> then bitlen \<lfloor>\<bar>x\<bar>\<rfloor> - 1 else - bitlen (\<lceil>1 / \<bar>x\<bar>\<rceil> - 1))"

text \<open>The nearest integer, a tie going to the even one.\<close>

definition round_even :: "real \<Rightarrow> int" where
  "round_even y =
     (let f = \<lfloor>y\<rfloor>; d = y - of_int f
      in if d < 1 / 2 then f else if 1 / 2 < d then f + 1 else if even f then f else f + 1)"

text \<open>
  Rounding a real number to binary64: 53 bits of mantissa, the least exponent -1022
  (below it the spacing stays \<open>2 ^ -1074\<close>), infinity from \<open>2 ^ 1024\<close> on.
\<close>

definition fl :: "real \<Rightarrow> pyfloat" where
  "fl x =
     (if x = 0 then Finite 0
      else
        let u = pow2 (max (expo x) (- 1022) - 52);
            y = of_int (round_even (x / u)) * u
        in if pow2 1024 \<le> \<bar>y\<bar> then (if 0 < x then PInf else NInf) else Finite y)"

text \<open>The comparisons \<open><\<close>, \<open><=\<close> and \<open>==\<close> of floats.\<close>

fun py_lt :: "pyfloat \<Rightarrow> pyfloat \<Rightarrow> bool" where
  "py_lt NaN b = False"
| "py_lt a NaN = False"
| "py_lt (Finite x) (Finite y) = (x < y)"
| "py_lt (Finite x) PInf = True"
| "py_lt (Finite x) NInf = False"
| "py_lt PInf b = False"
| "py_lt NInf NInf = False"
| "py_lt NInf b = True"

definition py_eq :: "pyfloat \<Rightarrow> pyfloat \<Rightarrow> bool" where
  "py_eq a b \<longleftrightarrow> a \<noteq> NaN \<and> a = b"

definition py_le :: "pyfloat \<Rightarrow> pyfloat \<Rightarrow> bool" where
  "py_le a b \<longleftrightarrow> py_lt a b \<or> py_eq a b"

text \<open>\<open>min(a, b)\<close>: the second argument only when it is smaller.\<close>

definition py_min :: "pyfloat \<Rightarrow> pyfloat \<Rightarrow> pyfloat" where
  "py_min a b = (if py_lt b a then b else a)"

fun py_neg :: "pyfloat \<Rightarrow> pyfloat" where
  "py_neg (Finite x) = Finite (- x)"
| "py_neg PInf = NInf"
| "py_neg NInf = PInf"
| "py_neg NaN = NaN"

fun py_mul :: "pyfloat \<Rightarrow> pyfloat \<Rightarrow> pyfloat" where
  "py_mul NaN b = NaN"
| "py_mul a NaN = NaN"
| "py_mul (Finite x) (Finite y) = fl (x * y)"
| "py_mul (Finite x) PInf = (if x = 0 then NaN else if 0 < x then PInf else NInf)"
| "py_mul (Finite x) NInf = (if x = 0 then NaN else if 0 < x then NInf else PInf)"
| "py_mul PInf (Finite y) = (if y = 0 then NaN else if 0 < y then PInf else NInf)"
| "py_mul NInf (Finite y) = (if y = 0 then NaN else if 0 < y then NInf else PInf)"
| "py_mul PInf PInf = PInf"
| "py_mul PInf NInf = NInf"
| "py_mul NInf PInf = NInf"
| "py_mul NInf NInf = PInf"

fun py_add :: "pyfloat \<Rightarrow> pyfloat \<Rightarrow> pyfloat" where
  "py_add NaN b = NaN"
| "py_add a NaN = NaN"
| "py_add (Finite x) (Finite y) = fl (x + y)"
| "py_add (Finite x) b = b"
| "py_add a (Finite y) = a"
| "py_add PInf PInf = PInf"
| "py_add NInf NInf = NInf"
| "py_add PInf NInf = NaN"
| "py_add NInf PInf = NaN"

text \<open>\<open>a / 100.0\<close>.\<close>

fun div100 :: "pyfloat \<Rightarrow> pyfloat" where
  "div100 (Finite x) = fl (x / 100)"
| "div100 a = a"

text \<open>\<open>round(a, 2)\<close>: the double nearest to the nearest hundredth of \<open>a\<close>.\<close>

fun py_round2 :: "pyfloat \<Rightarrow> pyfloat" where
  "py_round2 (Finite x) = fl (of_int (round_even (x * 100)) / 100)"
| "py_round2 a = a"

text \<open>Adding from left to right, starting from the integer 0.\<close>

definition sum_left :: "pyfloat list \<Rightarrow> pyfloat" where
  "sum_left xs = foldl py_add (Finite 0) xs"

subsection \<open>Models\<close>

datatype DiscountType = FLAT | PERCENT

type_synonym datetime = int

record Eligibility =
  allowedUserTiers :: "string list option"
  minLifetimeSpend :: "pyfloat option"
  minOrdersPlaced :: "int option"
  firstOrderOnly :: "bool option"
  allowedCountries :: "string list option"
  minCartValue :: "pyfloat option"
  applicableCategories :: "string list option"
  excludedCategories :: "string list option"
  minItemsCount :: "int option"

record CouponIn =
  code :: string
  description :: "string option"
  discountType :: DiscountType
  discountValue :: pyfloat
  maxDiscountAmount :: "pyfloat option"
  startDate :: datetime
  endDate :: datetime
  usageLimitPerUser :: "int option"
  eligibility :: "Eligibility option"

text \<open>\<open>class CouponStored(CouponIn)\<close>: the field \<open>id\<close> is named \<open>coupon_id\<close> here.\<close>

record CouponStored = CouponIn +
  coupon_id :: string
  usage_count :: "(string \<times> int) list"

record UserContext =
  userId :: string
  userTier :: "string option"
  country :: "string option"
  lifetimeSpend :: "pyfloat option"
  ordersPlaced :: "int option"

record CartItem =
  productId :: string
  category :: string
  unitPrice :: pyfloat
  quantity :: int

record Cart =
  items :: "CartItem list"

record BestCouponRequest =
  user :: UserContext
  cart :: Cart

text \<open>The values a \<open>Dict[str, Any]\<close> of this program holds.\<close>

datatype pyval =
    VNone
  | VBool bool
  | VInt int
  | VFloat pyfloat
  | VStr string
  | VDatetime datetime
  | VDiscountType DiscountType
  | VList "pyval list"
  | VDict "(string \<times> pyval) list"

record BestCouponResponse =
  coupon :: "(string \<times> pyval) list option"
  discountAmount :: "pyfloat option"
  reason :: "string option"

text \<open>What a call can raise.\<close>

datatype error =
    ValidationError "string list"
  | HTTPException int string
  | OverflowError

type_synonym store = "(string \<times> CouponStored) list"

subsection \<open>Python primitives\<close>

text \<open>\<open>float(n)\<close> of an integer, as the product of a float and an integer takes it.\<close>

definition int_to_float :: "int \<Rightarrow> error + pyfloat" where
  "int_to_float n = (case fl (of_int n) of Finite y \<Rightarrow> Inr (Finite y) | _ \<Rightarrow> Inl OverflowError)"

definition isspace :: "char \<Rightarrow> bool" where
  "isspace ch \<longleftrightarrow>
     (let n = (of_char ch :: nat) in (9 \<le> n \<and> n \<le> 13) \<or> (28 \<le> n \<and> n \<le> 32))"

definition strip :: "string \<Rightarrow> string" where
  "strip s = rev (dropWhile isspace (rev (dropWhile isspace s)))"

definition upper_char :: "char \<Rightarrow> char" where
  "upper_char ch =
     (let n = (of_char ch :: nat) in if 97 \<le> n \<and> n \<le> 122 then char_of (n - 32) else ch)"

definition upper :: "string \<Rightarrow> string" where
  "upper s = map upper_char s"

text \<open>Truthiness of an optional list: \<open>None\<close> and \<open>[]\<close> are false.\<close>

fun truthy :: "'a list option \<Rightarrow> bool" where
  "truthy None = False"
| "truthy (Some []) = False"
| "truthy (Some (x # xs)) = True"

text \<open>\<open>x or 0\<close> on an optional integer and on an optional float.\<close>

fun or_zero :: "int option \<Rightarrow> int" where
  "or_zero None = 0"
| "or_zero (Some x) = x"

fun or_zero_float :: "pyfloat option \<Rightarrow> pyfloat" where
  "or_zero_float None = Finite 0"
| "or_zero_float (Some x) = x"

text \<open>\<open>x in xs\<close> for an optional string \<open>x\<close> and a list of strings.\<close>

fun py_in :: "string option \<Rightarrow> string list \<Rightarrow> bool" where
  "py_in None xs = False"
| "py_in (Some x) xs = (x \<in> set xs)"

text \<open>\<open>d.get(k, 0)\<close>.\<close>

definition get0 :: "(string \<times> int) list \<Rightarrow> string \<Rightarrow> int" where
  "get0 d k = (case map_of d k of None \<Rightarrow> 0 | Some n \<Rightarrow> n)"

text \<open>
  \<open>list.sort(key=...)\<close>, a stable sort: on keys that \<open><\<close> orders totally it is sorting by
  insertion, each element going before the first one whose key is not smaller.
\<close>

fun insort_lt :: "('k \<Rightarrow> 'k \<Rightarrow> bool) \<Rightarrow> ('a \<Rightarrow> 'k) \<Rightarrow> 'a \<Rightarrow> 'a list \<Rightarrow> 'a list" where
  "insort_lt lt key x [] = [x]"
| "insort_lt lt key x (y # ys) =
     (if lt (key y) (key x) then y # insort_lt lt key x ys else x # y # ys)"

definition list_sort :: "('k \<Rightarrow> 'k \<Rightarrow> bool) \<Rightarrow> ('a \<Rightarrow> 'k) \<Rightarrow> 'a list \<Rightarrow> 'a list" where
  "list_sort lt key xs = foldr (insort_lt lt key) xs []"

text \<open>\<open><\<close> on tuples of a float, a datetime and a string: the first items that differ decide.\<close>

fun tuple_lt :: "pyfloat \<times> datetime \<times> string \<Rightarrow> pyfloat \<times> datetime \<times> string \<Rightarrow> bool" where
  "tuple_lt (a, d, s) (a', d', s') =
     (if \<not> py_eq a a' then py_lt a a' else if d \<noteq> d' then d < d' else s < s')"

subsection \<open>Construction of a \<open>CouponIn\<close>\<close>

text \<open>
  The checks pydantic runs when a \<open>CouponIn\<close> is built: \<open>Field(..., gt=0)\<close> on
  \<open>discountValue\<close> and the validator \<open>end_after_start\<close>. All failures are collected.
\<close>

definition end_after_start :: "datetime \<Rightarrow> datetime \<Rightarrow> string + datetime" where
  "end_after_start v start =
     (if v < start then Inl ''endDate must be >= startDate'' else Inr v)"

definition CouponIn_init :: "CouponIn \<Rightarrow> error + CouponIn" where
  "CouponIn_init raw =
     (let errs =
        (if py_lt (Finite 0) (discountValue raw) then []
         else [''ensure this value is greater than 0'']) @
        (case end_after_start (endDate raw) (startDate raw) of
           Inl msg \<Rightarrow> [msg] | Inr v \<Rightarrow> [])
      in if errs = [] then Inr raw else Inl (ValidationError errs))"

subsection \<open>Helpers\<close>

text \<open>
  The generator \<open>item.unitPrice * item.quantity for item in cart.items\<close>: the products in
  order, or the error of the first quantity that is too large for a float.
\<close>

fun item_values :: "CartItem list \<Rightarrow> error + pyfloat list" where
  "item_values [] = Inr []"
| "item_values (item # rest) =
     (case int_to_float (quantity item) of
        Inl e \<Rightarrow> Inl e
      | Inr q \<Rightarrow>
          (case item_values rest of
             Inl e \<Rightarrow> Inl e
           | Inr xs \<Rightarrow> Inr (py_mul (unitPrice item) q # xs)))"

text \<open>The sum of no item is the integer 0.\<close>

definition compute_cart_value :: "(pyfloat list \<Rightarrow> pyfloat) \<Rightarrow> Cart \<Rightarrow> error + pyfloat" where
  "compute_cart_value fsum ct =
     (case item_values (items ct) of
        Inl e \<Rightarrow> Inl e
      | Inr xs \<Rightarrow> Inr (if xs = [] then Finite 0 else fsum xs))"

definition total_items_count :: "Cart \<Rightarrow> int" where
  "total_items_count ct = sum_list (map quantity (items ct))"

definition categories_in_cart :: "Cart \<Rightarrow> string list" where
  "categories_in_cart ct = map category (items ct)"

text \<open>The argument \<open>n\<close> is the value of the call \<open>now_utc()\<close> in the body.\<close>

definition coupon_within_dates :: "datetime \<Rightarrow> CouponStored \<Rightarrow> bool" where
  "coupon_within_dates n c \<longleftrightarrow> startDate c \<le> n \<and> n \<le> endDate c"

definition usage_within_limit :: "CouponStored \<Rightarrow> string \<Rightarrow> bool" where
  "usage_within_limit c uid =
     (case usageLimitPerUser c of
        None \<Rightarrow> True
      | Some n \<Rightarrow> get0 (usage_count c) uid < n)"

text \<open>The cart value is computed once the rules on the user have passed, needed or not.\<close>

definition eligibility_satisfied ::
  "(pyfloat list \<Rightarrow> pyfloat) \<Rightarrow> CouponStored \<Rightarrow> UserContext \<Rightarrow> Cart \<Rightarrow> error + bool" where
  "eligibility_satisfied fsum c u ct =
     (case eligibility c of
        None \<Rightarrow> Inr True
      | Some e \<Rightarrow>
          if truthy (allowedUserTiers e) \<and> \<not> py_in (userTier u) (the (allowedUserTiers e))
          then Inr False
          else if minLifetimeSpend e \<noteq> None \<and>
                  py_lt (or_zero_float (lifetimeSpend u)) (the (minLifetimeSpend e))
          then Inr False
          else if minOrdersPlaced e \<noteq> None \<and>
                  or_zero (ordersPlaced u) < the (minOrdersPlaced e)
          then Inr False
          else if firstOrderOnly e = Some True \<and> or_zero (ordersPlaced u) \<noteq> 0
          then Inr False
          else if truthy (allowedCountries e) \<and> \<not> py_in (country u) (the (allowedCountries e))
          then Inr False
          else
            case compute_cart_value fsum ct of
              Inl err \<Rightarrow> Inl err
            | Inr cart_value \<Rightarrow>
                if minCartValue e \<noteq> None \<and> py_lt cart_value (the (minCartValue e))
                then Inr False
                else
                  let cart_categories = set (categories_in_cart ct) in
                  if truthy (applicableCategories e) \<and>
                     cart_categories \<inter> set (the (applicableCategories e)) = {}
                  then Inr False
                  else if truthy (excludedCategories e) \<and>
                          cart_categories \<inter> set (the (excludedCategories e)) \<noteq> {}
                  then Inr False
                  else if minItemsCount e \<noteq> None \<and>
                          total_items_count ct < the (minItemsCount e)
                  then Inr False
                  else Inr True)"

definition compute_discount_amount :: "CouponStored \<Rightarrow> pyfloat \<Rightarrow> pyfloat" where
  "compute_discount_amount c cart_value =
     (if discountType c = FLAT then py_min cart_value (discountValue c)
      else
        let raw = py_mul (div100 (discountValue c)) cart_value in
        case maxDiscountAmount c of
          Some cap \<Rightarrow> py_min raw cap
        | None \<Rightarrow> raw)"

subsection \<open>Conversion to a dictionary\<close>

text \<open>\<open>.dict()\<close> of a model: the fields in declaration order, nested models converted.\<close>

fun opt :: "('a \<Rightarrow> pyval) \<Rightarrow> 'a option \<Rightarrow> pyval" where
  "opt f None = VNone"
| "opt f (Some x) = f x"

definition VStrs :: "string list \<Rightarrow> pyval" where
  "VStrs xs = VList (map VStr xs)"

definition Eligibility_dict :: "Eligibility \<Rightarrow> (string \<times> pyval) list" where
  "Eligibility_dict e =
     [(''allowedUserTiers'', opt VStrs (allowedUserTiers e)),
      (''minLifetimeSpend'', opt VFloat (minLifetimeSpend e)),
      (''minOrdersPlaced'', opt VInt (minOrdersPlaced e)),
      (''firstOrderOnly'', opt VBool (firstOrderOnly e)),
      (''allowedCountries'', opt VStrs (allowedCountries e)),
      (''minCartValue'', opt VFloat (minCartValue e)),
      (''applicableCategories'', opt VStrs (applicableCategories e)),
      (''excludedCategories'', opt VStrs (excludedCategories e)),
      (''minItemsCount'', opt VInt (minItemsCount e))]"

definition CouponStored_dict :: "CouponStored \<Rightarrow> (string \<times> pyval) list" where
  "CouponStored_dict c =
     [(''code'', VStr (code c)),
      (''description'', opt VStr (description c)),
      (''discountType'', VDiscountType (discountType c)),
      (''discountValue'', VFloat (discountValue c)),
      (''maxDiscountAmount'', opt VFloat (maxDiscountAmount c)),
      (''startDate'', VDatetime (startDate c)),
      (''endDate'', VDatetime (endDate c)),
      (''usageLimitPerUser'', opt VInt (usageLimitPerUser c)),
      (''eligibility'', opt (\<lambda>e. VDict (Eligibility_dict e)) (eligibility c)),
      (''id'', VStr (coupon_id c)),
      (''usage_count'', VDict (map (\<lambda>(k, n). (k, VInt n)) (usage_count c)))]"

text \<open>\<open>d.pop(k, None)\<close>, the popped value dropped.\<close>

definition pop :: "string \<Rightarrow> (string \<times> pyval) list \<Rightarrow> (string \<times> pyval) list" where
  "pop k d = AList.delete k d"

subsection \<open>Endpoints\<close>

text \<open>
  \<open>create_coupon\<close>: the argument \<open>uuid\<close> is the value of \<open>str(uuid4())\<close>. Both dates are
  instants already, so giving a naive one the UTC zone changes nothing here.
\<close>

definition create_coupon :: "store \<Rightarrow> string \<Rightarrow> CouponIn \<Rightarrow> (error + CouponStored) \<times> store" where
  "create_coupon coupons uuid cin =
     (let k = upper (strip (code cin)) in
      if k \<in> fst ` set coupons
      then (Inl (HTTPException 400
                  (''Coupon code '' @ [CHR 0x27] @ k @ [CHR 0x27] @ '' already exists.'')),
            coupons)
      else
        let stored = CouponIn.extend cin (CouponStored.fields uuid [])
        in (Inr stored, AList.update k stored coupons))"

definition list_coupons :: "store \<Rightarrow> CouponStored list" where
  "list_coupons coupons = map snd coupons"

text \<open>The sort key of \<open>best_coupon\<close>.\<close>

definition sort_key_pair :: "CouponStored \<times> pyfloat \<Rightarrow> pyfloat \<times> datetime \<times> string" where
  "sort_key_pair p = (case p of (c, discount) \<Rightarrow> (py_neg discount, endDate c, code c))"

text \<open>
  The loop of \<open>best_coupon\<close> over \<open>coupons.items()\<close>. \<open>clk k\<close> is the clock reading of the
  call of \<open>coupon_within_dates\<close> for the coupon at hand.
\<close>

fun eligible_loop ::
  "(pyfloat list \<Rightarrow> pyfloat) \<Rightarrow> (nat \<Rightarrow> datetime) \<Rightarrow> nat \<Rightarrow> UserContext \<Rightarrow> Cart \<Rightarrow> pyfloat \<Rightarrow>
   store \<Rightarrow> error + (CouponStored \<times> pyfloat) list"
where
  "eligible_loop fsum clk k u ct cart_value [] = Inr []"
| "eligible_loop fsum clk k u ct cart_value ((cd, c) # rest) =
     (if \<not> coupon_within_dates (clk k) c
      then eligible_loop fsum clk (Suc k) u ct cart_value rest
      else if \<not> usage_within_limit c (userId u)
      then eligible_loop fsum clk (Suc k) u ct cart_value rest
      else
        case eligibility_satisfied fsum c u ct of
          Inl e \<Rightarrow> Inl e
        | Inr False \<Rightarrow> eligible_loop fsum clk (Suc k) u ct cart_value rest
        | Inr True \<Rightarrow>
            let discount = compute_discount_amount c cart_value in
            if py_le discount (Finite 0)
            then eligible_loop fsum clk (Suc k) u ct cart_value rest
            else
              (case eligible_loop fsum clk (Suc k) u ct cart_value rest of
                 Inl e \<Rightarrow> Inl e
               | Inr found \<Rightarrow> Inr ((c, py_round2 discount) # found)))"

text \<open>
  The candidate that \<open>eligible_candidates.sort(key=sort_key)\<close> leaves first. When no key
  holds NaN, \<open><\<close> orders the keys and the sort, a stable one, is \<open>list_sort\<close>. When a key
  holds NaN the comparisons are no order, and the arrangement the sort leaves depends on
  its inner working: it is some arrangement of the candidates, and the position, in the
  list before sorting, of the candidate that comes first is an input of the model
  (\<open>nan_first\<close>).
\<close>

definition sorted_first ::
  "((CouponStored \<times> pyfloat) list \<Rightarrow> nat) \<Rightarrow> (CouponStored \<times> pyfloat) list \<Rightarrow>
   CouponStored \<times> pyfloat" where
  "sorted_first nan_first cands =
     (if list_ex (\<lambda>p. snd p = NaN) cands
      then cands ! (nan_first cands mod length cands)
      else hd (list_sort tuple_lt sort_key_pair cands))"

text \<open>
  \<open>best_coupon\<close>. The list of candidates is not empty where its first element is taken.
  \<open>now\<close>, the reading 0 of the clock, is not used afterwards, as in the source.
\<close>

definition best_coupon ::
  "(pyfloat list \<Rightarrow> pyfloat) \<Rightarrow> ((CouponStored \<times> pyfloat) list \<Rightarrow> nat) \<Rightarrow>
   (nat \<Rightarrow> datetime) \<Rightarrow> store \<Rightarrow> BestCouponRequest \<Rightarrow>
   (error + BestCouponResponse) \<times> store" where
  "best_coupon fsum nan_first clk coupons req =
     (let u = user req; ct = cart req in
      case compute_cart_value fsum ct of
        Inl e \<Rightarrow> (Inl e, coupons)
      | Inr cart_value \<Rightarrow>
          let now = clk 0 in
          case eligible_loop fsum clk 1 u ct cart_value coupons of
            Inl e \<Rightarrow> (Inl e, coupons)
          | Inr eligible_candidates \<Rightarrow>
              if eligible_candidates = []
              then (Inr \<lparr>coupon = None, discountAmount = Some (Finite 0),
                         reason = Some ''No eligible coupons''\<rparr>,
                    coupons)
              else
                case sorted_first nan_first eligible_candidates of
                  (best_c, best_discount) \<Rightarrow>
                    let coupon_out = pop ''usage_count'' (CouponStored_dict best_c)
                    in (Inr \<lparr>coupon = Some coupon_out, discountAmount = Some best_discount,
                              reason = Some ''OK''\<rparr>,
                        coupons))"

text \<open>
  \<open>redeem\<close>: \<open>n\<close> is the clock reading of its one call of \<open>coupon_within_dates\<close>. The
  coupon is updated in place in the store.
\<close>

definition redeem ::
  "(pyfloat list \<Rightarrow> pyfloat) \<Rightarrow> datetime \<Rightarrow> store \<Rightarrow> string \<Rightarrow> BestCouponRequest \<Rightarrow>
   (error + (string \<times> pyval) list) \<times> store"
where
  "redeem fsum n coupons cd req =
     (let k = upper (strip cd) in
      case map_of coupons k of
        None \<Rightarrow> (Inl (HTTPException 404 ''Coupon not found''), coupons)
      | Some c \<Rightarrow>
          let u = user req; ct = cart req in
          if \<not> coupon_within_dates n c
          then (Inl (HTTPException 400 ''Coupon not valid right now (date window)''), coupons)
          else if \<not> usage_within_limit c (userId u)
          then (Inl (HTTPException 400 ''Usage limit reached for this user''), coupons)
          else
            case eligibility_satisfied fsum c u ct of
              Inl e \<Rightarrow> (Inl e, coupons)
            | Inr False \<Rightarrow>
                (Inl (HTTPException 400 ''Eligibility criteria not satisfied''), coupons)
            | Inr True \<Rightarrow>
                (case compute_cart_value fsum ct of
                   Inl e \<Rightarrow> (Inl e, coupons)
                 | Inr cart_value \<Rightarrow>
                     let discount = compute_discount_amount c cart_value in
                     if py_le discount (Finite 0)
                     then (Inl (HTTPException 400 ''Coupon yields zero discount for this cart''),
                           coupons)
                     else
                       let c' = c\<lparr>usage_count :=
                                  AList.update (userId u) (get0 (usage_count c) (userId u) + 1)
                                    (usage_count c)\<rparr>
                       in (Inr [(''message'', VStr ''Redeemed''),
                                (''coupon'', VStr (code c')),
                                (''discountAmount'', VFloat (py_round2 discount))],
                           AList.update k c' coupons)))"

subsection \<open>The discount rule as the specification words it\<close>


subsection \<open>Finite floats\<close>

text \<open>A float that is a number below the overflow threshold, as every finite double is.\<close>

fun finite_float :: "pyfloat \<Rightarrow> bool" where
  "finite_float (Finite x) = (\<bar>x\<bar> < pow2 1024)"
| "finite_float a = False"

subsection \<open>Invariants of the store\<close>

text \<open>
  What \<open>create_coupon\<close> and \<open>redeem\<close> maintain from the empty store on: every coupon sits
  under its normalized code, and no usage count is negative.
\<close>

definition store_wf :: "store \<Rightarrow> bool" where
  "store_wf coupons \<longleftrightarrow>
     distinct (map fst coupons) \<and> list_all (\<lambda>(k, c). k = upper (strip (code c))) coupons"

definition ledger_ok :: "store \<Rightarrow> bool" where
  "ledger_ok coupons \<longleftrightarrow>
     list_all (\<lambda>(k, c). list_all (\<lambda>(uid, n). 0 \<le> n) (usage_count c)) coupons"

subsection \<open>The ranking of candidates\<close>

text \<open>
  The ordering law on candidates (a coupon with its rounded amount): the higher amount
  first, then the earlier \<open>endDate\<close>, then the smaller \<open>code\<close> as the coupon stores it.
\<close>

definition ranks_before :: "CouponStored \<times> pyfloat \<Rightarrow> CouponStored \<times> pyfloat \<Rightarrow> bool" where
  "ranks_before p q \<longleftrightarrow>
     py_lt (snd q) (snd p) \<or>
     (py_eq (snd p) (snd q) \<and>
      (endDate (fst p) < endDate (fst q) \<or>
       (endDate (fst p) = endDate (fst q) \<and> code (fst p) < code (fst q))))"

text \<open>
  For the proofs: floats that are not NaN, and sort keys without NaN, sit in a linear order
  in which \<open><\<close> of the program is the order.
\<close>

fun float_rank :: "pyfloat \<Rightarrow> int \<times> real" where
  "float_rank NInf = (- 1, 0)"
| "float_rank (Finite x) = (0, x)"
| "float_rank PInf = (1, 0)"
| "float_rank NaN = (2, 0)"

definition key_rank :: "pyfloat \<times> datetime \<times> string \<Rightarrow> (int \<times> real) \<times> datetime \<times> string" where
  "key_rank k = (case k of (a, d, s) \<Rightarrow> (float_rank a, d, s))"

subsection \<open>Successive redemptions\<close>

text \<open>
  The calls \<open>redeem\<close> of a list of requests against one code, one after the other, each on
  the store the call before left: the final store when every call succeeded, \<open>None\<close> as
  soon as one fails.
\<close>

fun redeem_seq ::
  "(pyfloat list \<Rightarrow> pyfloat) \<Rightarrow> store \<Rightarrow> string \<Rightarrow> (datetime \<times> BestCouponRequest) list \<Rightarrow>
   store option" where
  "redeem_seq fsum coupons cd [] = Some coupons"
| "redeem_seq fsum coupons cd ((n, req) # rest) =
     (case redeem fsum n coupons cd req of
        (Inl e, _) \<Rightarrow> None
      | (Inr r, coupons') \<Rightarrow> redeem_seq fsum coupons' cd rest)"

subsection \<open>Example data\<close>

definition no_eligibility :: Eligibility where
  "no_eligibility =
     \<lparr>allowedUserTiers = None, minLifetimeSpend = None, minOrdersPlaced = None,
      firstOrderOnly = None, allowedCountries = None, minCartValue = None,
      applicableCategories = None, excludedCategories = None, minItemsCount = None\<rparr>"

text \<open>A coupon definition valid from instant 0 to instant 10.\<close>

definition example_in ::
  "string \<Rightarrow> DiscountType \<Rightarrow> pyfloat \<Rightarrow> pyfloat option \<Rightarrow> int option \<Rightarrow> Eligibility option \<Rightarrow>
   CouponIn"
where
  "example_in cd ty dv cap ulim el =
     \<lparr>code = cd, description = Some [], discountType = ty, discountValue = dv,
      maxDiscountAmount = cap, startDate = 0, endDate = 10, usageLimitPerUser = ulim,
      eligibility = el\<rparr>"

text \<open>The same coupon as stored, with a given ledger.\<close>

definition example_coupon ::
  "string \<Rightarrow> DiscountType \<Rightarrow> pyfloat \<Rightarrow> pyfloat option \<Rightarrow> int option \<Rightarrow> Eligibility option \<Rightarrow>
   (string \<times> int) list \<Rightarrow> CouponStored"
where
  "example_coupon cd ty dv cap ulim el ledger =
     \<lparr>code = cd, description = Some [], discountType = ty, discountValue = dv,
      maxDiscountAmount = cap, startDate = 0, endDate = 10, usageLimitPerUser = ulim,
      eligibility = el, coupon_id = ''id'', usage_count = ledger\<rparr>"

definition example_user :: UserContext where
  "example_user =
     \<lparr>userId = ''u1'', userTier = None, country = None, lifetimeSpend = Some (Finite 0),
      ordersPlaced = Some 0\<rparr>"

text \<open>A cart of \<open>qty\<close> pieces of one product at the price \<open>price\<close>.\<close>

definition example_cart :: "pyfloat \<Rightarrow> int \<Rightarrow> Cart" where
  "example_cart price qty =
     \<lparr>items = [\<lparr>productId = ''p1'', category = ''fashion'', unitPrice = price,
                 quantity = qty\<rparr>]\<rparr>"


definition example_req :: "pyfloat \<Rightarrow> int \<Rightarrow> BestCouponRequest" where
  "example_req price qty = \<lparr>user = example_user, cart = example_cart price qty\<rparr>"

text \<open>Stores built by \<open>create_coupon\<close> from the empty store.\<close>

definition store_bC :: store where
  "store_bC =
     snd (create_coupon
            (snd (create_coupon [] ''id'' (example_in ''b'' FLAT (Finite 100) None None None)))
            ''id'' (example_in ''C'' FLAT (Finite 100) None None None))"

definition store_ties :: store where
  "store_ties =
     snd (create_coupon
       (snd (create_coupon
          (snd (create_coupon [] ''id'' (example_in ''SAVE50'' FLAT (Finite 50) None None None)))
          ''id'' ((example_in ''A100'' FLAT (Finite (25601 / 256)) None None None)
                   \<lparr>endDate := 20\<rparr>)))
       ''id'' (example_in ''Z100'' FLAT (Finite 100) None None None))"

text \<open>15 percent against a flat 0.078125, for a cart of 0.5.\<close>

definition store_percent :: store where
  "store_percent =
     snd (create_coupon
            (snd (create_coupon [] ''id'' (example_in ''P15'' PERCENT (Finite 15) None None None)))
            ''id'' (example_in ''F8'' FLAT (Finite (5 / 64)) None None None))"

definition store_once :: store where
  "store_once =
     snd (create_coupon [] ''id'' (example_in ''ONCE'' FLAT (Finite 100) None (Some 1) None))"

definition store_never :: store where
  "store_never =
     snd (create_coupon [] ''id'' (example_in ''NEVER'' FLAT (Finite 100) None (Some 0) None))"

section \<open>Properties\<close>

subsection \<open>Auxiliary facts\<close>

text \<open>Powers of two and the binary exponent.\<close>

lemma pow2_powr: "pow2 k = 2 powr (of_int k)"
proof (cases "0 \<le> k")
  case True
  then show ?thesis
    by (simp add: pow2_def powr_realpow[symmetric])
next
  case False
  then have "(2::real) powr (of_int k) = 1 / 2 powr (of_int (- k))"
    by (simp add: powr_minus_divide)
  also have "\<dots> = 1 / 2 ^ nat (- k)"
    using False by (simp add: powr_realpow[symmetric])
  finally show ?thesis using False by (simp add: pow2_def)
qed

lemma pow2_pos: "0 < pow2 k"
  by (simp add: pow2_powr)

lemma pow2_add: "pow2 (j + k) = pow2 j * pow2 k"
  by (simp add: pow2_powr powr_add)

lemma pow2_mono: "j \<le> k \<Longrightarrow> pow2 j \<le> pow2 k"
  by (simp add: pow2_powr)

lemma pow2_less: "pow2 j < pow2 k \<longleftrightarrow> j < k"
  by (simp add: pow2_powr)

lemma expo_bounds:
  assumes "x \<noteq> 0"
  shows "pow2 (expo x) \<le> \<bar>x\<bar> \<and> \<bar>x\<bar> < pow2 (expo x + 1)"
proof (cases "1 \<le> \<bar>x\<bar>")
  case True
  define n where "n = \<lfloor>\<bar>x\<bar>\<rfloor>"
  have n: "1 \<le> n" using True by (simp add: n_def le_floor_iff)
  then have b: "2 ^ nat (bitlen n - 1) \<le> n" "n < 2 ^ nat (bitlen n)"
    using bitlen_bounds[of n] by auto
  have b1: "1 \<le> bitlen n" using n by (simp add: bitlen_alt_def)
  have e: "expo x = bitlen n - 1" using True by (simp add: expo_def n_def)
  have "pow2 (expo x) = 2 ^ nat (bitlen n - 1)" using b1 by (simp add: e pow2_def)
  also have "\<dots> \<le> of_int n" using b(1) by (metis of_int_le_iff of_int_numeral of_int_power)
  also have "\<dots> \<le> \<bar>x\<bar>" by (simp add: n_def)
  finally have lo: "pow2 (expo x) \<le> \<bar>x\<bar>" .
  have "\<bar>x\<bar> < of_int n + 1" by (simp add: n_def)
  also have "\<dots> = of_int (n + 1)" by simp
  also have "\<dots> \<le> of_int (2 ^ nat (bitlen n))"
    using b(2) by (intro of_int_le_iff[THEN iffD2]) simp
  also have "\<dots> = pow2 (expo x + 1)" using b1 by (simp add: e pow2_def)
  finally show ?thesis using lo by simp
next
  case False
  define m where "m = \<lceil>1 / \<bar>x\<bar>\<rceil>"
  have x: "0 < \<bar>x\<bar>" "\<bar>x\<bar> < 1" using assms False by auto
  then have y: "1 < 1 / \<bar>x\<bar>" by simp
  then have m: "2 \<le> m" unfolding m_def by (simp add: le_ceiling_iff)
  then have b: "2 ^ nat (bitlen (m - 1) - 1) \<le> m - 1" "m - 1 < 2 ^ nat (bitlen (m - 1))"
    using bitlen_bounds[of "m - 1"] by auto
  have b1: "1 \<le> bitlen (m - 1)" using m by (simp add: bitlen_alt_def)
  have e: "expo x = - bitlen (m - 1)" using False by (simp add: expo_def m_def)
  have "1 / \<bar>x\<bar> \<le> of_int m" by (simp add: m_def)
  also have "of_int m \<le> (of_int (2 ^ nat (bitlen (m - 1))) :: real)"
    using b(2) by (intro of_int_le_iff[THEN iffD2]) simp
  finally have "1 / \<bar>x\<bar> \<le> 2 ^ nat (bitlen (m - 1))" by simp
  then have "1 / 2 ^ nat (bitlen (m - 1)) \<le> \<bar>x\<bar>"
    using x(1) by (simp add: field_simps)
  then have lo: "pow2 (expo x) \<le> \<bar>x\<bar>" using b1 by (simp add: e pow2_def)
  have "(2::real) ^ nat (bitlen (m - 1) - 1) \<le> of_int (m - 1)"
    using b(1) by (metis of_int_le_iff of_int_numeral of_int_power)
  also have "of_int (m - 1) < 1 / \<bar>x\<bar>"
    unfolding m_def by (metis ceiling_less_iff less_ceiling_iff of_int_diff of_int_1 
        diff_less_eq less_add_one order_less_le_trans linorder_not_le)
  finally have "2 ^ nat (bitlen (m - 1) - 1) < 1 / \<bar>x\<bar>" .
  then have "\<bar>x\<bar> < 1 / 2 ^ nat (bitlen (m - 1) - 1)"
    using x(1) by (simp add: field_simps)
  also have "\<dots> = pow2 (expo x + 1)"
    using b1 by (auto simp: e pow2_def nat_diff_distrib)
  finally show ?thesis using lo by simp
qed

lemma expo_unique:
  assumes "pow2 e \<le> \<bar>x\<bar>" and "\<bar>x\<bar> < pow2 (e + 1)"
  shows "expo x = e"
proof -
  have "x \<noteq> 0" using assms(1) pow2_pos[of e] by auto
  from expo_bounds[OF this] have b: "pow2 (expo x) \<le> \<bar>x\<bar>" "\<bar>x\<bar> < pow2 (expo x + 1)"
    by auto
  have "pow2 e < pow2 (expo x + 1)" using assms(1) b(2) by simp
  moreover have "pow2 (expo x) < pow2 (e + 1)" using assms(2) b(1) by simp
  ultimately show ?thesis by (simp add: pow2_less)
qed

text \<open>Rounding to the nearest integer.\<close>

lemma round_even_floor: "\<lfloor>y\<rfloor> \<le> round_even y \<and> round_even y \<le> \<lfloor>y\<rfloor> + 1"
  by (simp add: round_even_def Let_def)

lemma round_even_int: "round_even (of_int k) = k"
  by (simp add: round_even_def)

lemma round_even_ge:
  assumes "of_int k \<le> y"
  shows "k \<le> round_even y"
proof -
  from assms have "k \<le> \<lfloor>y\<rfloor>" by (simp add: le_floor_iff)
  then show ?thesis using round_even_floor[of y] by linarith
qed

lemma round_even_le: "y \<le> of_int k \<Longrightarrow> round_even y \<le> k"
proof -
  assume a: "y \<le> of_int k"
  show ?thesis
  proof (cases "y = of_int k")
    case True
    then show ?thesis by (simp add: round_even_int)
  next
    case False
    with a have "y < of_int k" by simp
    then have "\<lfloor>y\<rfloor> < k" by (simp add: floor_less_iff)
    then show ?thesis using round_even_floor[of y] by simp
  qed
qed

lemma round_even_nearest:
  "\<bar>y - of_int (round_even y)\<bar> \<le> 1 / 2 \<and>
   (\<bar>y - of_int (round_even y)\<bar> = 1 / 2 \<longrightarrow> even (round_even y))"
proof -
  define d where "d = y - of_int \<lfloor>y\<rfloor>"
  have d: "0 \<le> d" "d < 1" unfolding d_def by linarith+
  have y: "y = of_int \<lfloor>y\<rfloor> + d" by (simp add: d_def)
  consider "d < 1 / 2" | "1 / 2 < d" | "d = 1 / 2" by linarith
  then show ?thesis
  proof cases
    case 1
    then have "round_even y = \<lfloor>y\<rfloor>" by (simp add: round_even_def Let_def d_def)
    then show ?thesis using 1 d by (simp add: d_def[symmetric])
  next
    case 2
    then have "round_even y = \<lfloor>y\<rfloor> + 1" by (simp add: round_even_def Let_def d_def)
    then have "y - of_int (round_even y) = d - 1" by (simp add: d_def)
    then show ?thesis using 2 d by simp
  next
    case 3
    show ?thesis
    proof (cases "even \<lfloor>y\<rfloor>")
      case True
      then have "round_even y = \<lfloor>y\<rfloor>" using 3 by (simp add: round_even_def Let_def d_def)
      then show ?thesis using 3 True by (simp add: d_def[symmetric])
    next
      case False
      then have r: "round_even y = \<lfloor>y\<rfloor> + 1" using 3 by (simp add: round_even_def Let_def d_def)
      then have "y - of_int (round_even y) = d - 1" by (simp add: d_def)
      then show ?thesis using 3 False r by simp
    qed
  qed
qed

text \<open>
  Rounding to a double: the sign is kept, integers below \<open>2 ^ 53\<close> are exact, overflow
  starts at \<open>2 ^ 1024\<close>.
\<close>

lemma fl_nonneg:
  assumes "0 \<le> x"
  shows "fl x = PInf \<or> (\<exists>y. fl x = Finite y \<and> 0 \<le> y)"
proof (cases "x = 0")
  case True
  then show ?thesis by (simp add: fl_def)
next
  case False
  define u where "u = pow2 (max (expo x) (- 1022) - 52)"
  have u: "0 < u" by (simp add: u_def pow2_pos)
  with assms have "0 \<le> x / u" by simp
  then have "0 \<le> round_even (x / u)" using round_even_ge[of 0 "x / u"] by simp
  then have "0 \<le> of_int (round_even (x / u)) * u" using u by simp
  with False assms show ?thesis
    by (auto simp: fl_def Let_def u_def[symmetric])
qed

lemma fl_nonpos:
  assumes "x \<le> 0"
  shows "fl x = NInf \<or> (\<exists>y. fl x = Finite y \<and> y \<le> 0)"
proof (cases "x = 0")
  case True
  then show ?thesis by (simp add: fl_def)
next
  case False
  define u where "u = pow2 (max (expo x) (- 1022) - 52)"
  have u: "0 < u" by (simp add: u_def pow2_pos)
  with assms have "x / u \<le> 0" by (simp add: divide_nonpos_pos)
  then have "round_even (x / u) \<le> 0" using round_even_le[of "x / u" 0] by simp
  then have "of_int (round_even (x / u)) * u \<le> 0" using u
    by (simp add: mult_nonpos_nonneg)
  with False assms show ?thesis
    by (auto simp: fl_def Let_def u_def[symmetric])
qed

lemma fl_not_NaN: "fl x \<noteq> NaN"
  by (simp add: fl_def Let_def)

lemma fl_int:
  assumes "\<bar>n\<bar> < 2 ^ 53"
  shows "fl (of_int n) = Finite (of_int n)"
proof (cases "n = 0")
  case True
  then show ?thesis by (simp add: fl_def)
next
  case False
  define x :: real where "x = of_int n"
  have x0: "x \<noteq> 0" using False by (simp add: x_def)
  have x1: "1 \<le> \<bar>x\<bar>" using False by (simp add: x_def)
  have x2: "\<bar>x\<bar> < pow2 53"
  proof -
    have "\<bar>x\<bar> = of_int \<bar>n\<bar>" by (simp add: x_def)
    also have "\<dots> < of_int (2 ^ 53)" using assms by (simp only: of_int_less_iff)
    finally show ?thesis by (simp add: pow2_def)
  qed
  from expo_bounds[OF x0] have b: "pow2 (expo x) \<le> \<bar>x\<bar>" "\<bar>x\<bar> < pow2 (expo x + 1)" by auto
  have "pow2 0 < pow2 (expo x + 1)" using x1 b(2) by (simp add: pow2_def)
  then have e0: "0 \<le> expo x" by (simp add: pow2_less)
  have "pow2 (expo x) < pow2 53" using b(1) x2 by simp
  then have e1: "expo x \<le> 52" by (simp add: pow2_less)
  define j where "j = nat (52 - expo x)"
  define u where "u = pow2 (max (expo x) (- 1022) - 52)"
  have u: "u = 1 / 2 ^ j"
  proof (cases "expo x = 52")
    case True
    then show ?thesis by (simp add: pow2_def j_def u_def)
  next
    case False
    with e0 e1 show ?thesis by (simp add: pow2_def j_def max_def u_def)
  qed
  have q: "x / u = of_int (n * 2 ^ j)" by (simp add: x_def u)
  have r: "round_even (x / u) = n * 2 ^ j"
    unfolding q by (rule round_even_int)
  have y: "of_int (round_even (x / u)) * u = x"
    unfolding r by (simp add: x_def u)
  have lt: "\<not> pow2 1024 \<le> \<bar>x\<bar>" using x2 pow2_mono[of 53 1024] by simp
  have "fl x = Finite x"
    unfolding fl_def Let_def u_def[symmetric] y using x0 lt by simp
  then show ?thesis by (simp add: x_def)
qed


lemma int_to_float_small: "\<bar>n\<bar> < 2 ^ 53 \<Longrightarrow> int_to_float n = Inr (Finite (of_int n))"
  by (simp add: int_to_float_def fl_int)


text \<open>\<open>round(x, 2)\<close> of a finite float.\<close>

lemma py_round2_finite:
  "\<exists>k. \<bar>x * 100 - of_int k\<bar> \<le> 1 / 2 \<and> (\<bar>x * 100 - of_int k\<bar> = 1 / 2 \<longrightarrow> even k) \<and>
       py_round2 (Finite x) = fl (of_int k / 100)"
  using round_even_nearest[of "x * 100"] by (intro exI[of _ "round_even (x * 100)"]) simp

lemma py_round2_not_NaN: "a \<noteq> NaN \<Longrightarrow> py_round2 a \<noteq> NaN"
  by (cases a) (simp_all add: fl_not_NaN)

lemma fl_finite:
  assumes "\<bar>x\<bar> < pow2 1023"
  shows "\<exists>y. fl x = Finite y"
proof (cases "x = 0")
  case True
  then show ?thesis by (simp add: fl_def)
next
  case False
  from expo_bounds[OF False] have b: "pow2 (expo x) \<le> \<bar>x\<bar>" "\<bar>x\<bar> < pow2 (expo x + 1)" by auto
  define E where "E = max (expo x) (- 1022)"
  define u where "u = pow2 (E - 52)"
  have u: "0 < u" by (simp add: u_def pow2_pos)
  have "pow2 (expo x) < pow2 1023" using b(1) assms by simp
  then have "expo x < 1023" by (simp add: pow2_less)
  then have E: "E \<le> 1022" by (simp add: E_def)
  have "pow2 (expo x + 1) \<le> pow2 (E + 1)" by (intro pow2_mono) (simp add: E_def)
  with b(2) have xE: "\<bar>x\<bar> < pow2 (E + 1)" by simp
  have p53: "pow2 53 = of_int (2 ^ 53)" by (simp add: pow2_def)
  have "pow2 (E + 1) = pow2 53 * u"
    unfolding u_def pow2_add[symmetric] by (simp add: add.commute)
  then have pE: "pow2 (E + 1) = of_int (2 ^ 53) * u" by (simp only: p53)
  have q: "x / u \<le> of_int (2 ^ 53)" "of_int (- (2 ^ 53)) \<le> x / u"
    using xE u unfolding pE by (simp_all add: pos_divide_le_eq pos_le_divide_eq abs_if split: if_splits)
  have "round_even (x / u) \<le> 2 ^ 53" using q(1) by (rule round_even_le)
  moreover have "- (2 ^ 53) \<le> round_even (x / u)" using q(2) by (rule round_even_ge)
  ultimately have "\<bar>round_even (x / u)\<bar> \<le> 2 ^ 53" by simp
  then have "\<bar>of_int (round_even (x / u)) :: real\<bar> \<le> of_int (2 ^ 53)"
    by (metis of_int_abs of_int_le_iff)
  then have "\<bar>of_int (round_even (x / u)) * u\<bar> \<le> of_int (2 ^ 53) * u"
    using u by (simp add: abs_mult)
  also have "\<dots> = pow2 (E + 1)" by (simp add: pE)
  also have "\<dots> \<le> pow2 1023" using E by (intro pow2_mono) simp
  also have "\<dots> < pow2 1024" by (simp add: pow2_less)
  finally have "\<not> pow2 1024 \<le> \<bar>of_int (round_even (x / u)) * u\<bar>" by simp
  then show ?thesis
    using False by (simp add: fl_def Let_def u_def[symmetric] E_def[symmetric])
qed

text \<open>The comparisons.\<close>

lemma py_lt_irrefl: "\<not> py_lt a a"
  by (cases a) simp_all

lemma py_le_refl: "a \<noteq> NaN \<Longrightarrow> py_le a a"
  by (simp add: py_le_def py_eq_def)

lemma py_lt_imp_le: "py_lt a b \<Longrightarrow> py_le a b"
  by (simp add: py_le_def)

lemma py_lt_not_NaN: "py_lt a b \<Longrightarrow> a \<noteq> NaN \<and> b \<noteq> NaN"
  by (cases a; cases b) simp_all

lemma py_le_not_NaN: "py_le a b \<Longrightarrow> a \<noteq> NaN \<and> b \<noteq> NaN"
  by (auto simp: py_le_def py_eq_def dest: py_lt_not_NaN)

lemma py_le_total: "a \<noteq> NaN \<Longrightarrow> b \<noteq> NaN \<Longrightarrow> \<not> py_lt b a \<Longrightarrow> py_le a b"
  by (cases a; cases b) (auto simp: py_le_def py_eq_def)

lemma py_le_zero_cases:
  "py_le (Finite 0) a \<longleftrightarrow> a = PInf \<or> (\<exists>y. a = Finite y \<and> 0 \<le> y)"
  by (cases a) (auto simp: py_le_def py_eq_def)

lemma fl_ge_zero: "0 \<le> x \<Longrightarrow> py_le (Finite 0) (fl x)"
  using fl_nonneg[of x] by (auto simp: py_le_zero_cases)

lemma div100_ge_zero:
  assumes "py_le (Finite 0) a"
  shows "py_le (Finite 0) (div100 a)"
proof (cases a)
  case (Finite x)
  with assms have "0 \<le> x / 100" by (simp add: py_le_zero_cases)
  then show ?thesis unfolding Finite by (simp add: fl_ge_zero)
qed (use assms in \<open>simp_all add: py_le_zero_cases\<close>)

lemma py_mul_ge_zero:
  assumes "py_le (Finite 0) a" and "py_le (Finite 0) b" and "py_mul a b \<noteq> NaN"
  shows "py_le (Finite 0) (py_mul a b)"
proof (cases a)
  case (Finite x)
  note a = this
  show ?thesis
  proof (cases b)
    case (Finite y)
    with a assms have "0 \<le> x * y" by (simp add: py_le_zero_cases)
    then show ?thesis unfolding a Finite by (simp add: fl_ge_zero)
  qed (use a assms in \<open>auto simp: py_le_zero_cases split: if_splits\<close>)
next
  case PInf
  then show ?thesis using assms by (cases b) (auto simp: py_le_zero_cases split: if_splits)
qed (use assms in \<open>simp_all add: py_le_zero_cases\<close>)

lemma if_same_branch: "(if P then X else if Q then X else R) = (if P \<or> Q then X else R)"
  by simp

lemma if_Inr_False: "(if P then Inr False else Inr b) = Inr (\<not> P \<and> b)"
  by simp

text \<open>The chain of early returns of \<open>eligibility_satisfied\<close>, read as two conditions.\<close>

lemma eligibility_satisfied_iff:
  "eligibility_satisfied fsum c u ct =
     (case eligibility c of
        None \<Rightarrow> Inr True
      | Some e \<Rightarrow>
          if (truthy (allowedUserTiers e) \<and> \<not> py_in (userTier u) (the (allowedUserTiers e))) \<or>
             (minLifetimeSpend e \<noteq> None \<and>
              py_lt (or_zero_float (lifetimeSpend u)) (the (minLifetimeSpend e))) \<or>
             (minOrdersPlaced e \<noteq> None \<and> or_zero (ordersPlaced u) < the (minOrdersPlaced e)) \<or>
             (firstOrderOnly e = Some True \<and> or_zero (ordersPlaced u) \<noteq> 0) \<or>
             (truthy (allowedCountries e) \<and> \<not> py_in (country u) (the (allowedCountries e)))
          then Inr False
          else
            case compute_cart_value fsum ct of
              Inl err \<Rightarrow> Inl err
            | Inr cart_value \<Rightarrow>
                Inr (\<not> (minCartValue e \<noteq> None \<and> py_lt cart_value (the (minCartValue e))) \<and>
                     \<not> (truthy (applicableCategories e) \<and>
                        set (categories_in_cart ct) \<inter> set (the (applicableCategories e)) = {}) \<and>
                     \<not> (truthy (excludedCategories e) \<and>
                        set (categories_in_cart ct) \<inter> set (the (excludedCategories e)) \<noteq> {}) \<and>
                     \<not> (minItemsCount e \<noteq> None \<and>
                        total_items_count ct < the (minItemsCount e))))"
  unfolding eligibility_satisfied_def Let_def
  by (cases "eligibility c")
     (simp_all only: option.case if_Inr_False if_same_branch simp_thms)

text \<open>The value of a cart of one item.\<close>

lemma example_cart_value:
  "\<bar>n\<bar> < 2 ^ 53 \<Longrightarrow>
   compute_cart_value sum_left (example_cart (Finite (of_int n)) 1) = Inr (Finite (of_int n))"
  using fl_int[of n] int_to_float_small[of 1]
  by (simp add: compute_cart_value_def example_cart_def sum_left_def)

lemma example_cart_600:
  "compute_cart_value sum_left (example_cart (Finite 600) 1) = Inr (Finite 600)"
  using example_cart_value[of 600] by simp

text \<open>\<open>min\<close> and the raw amount.\<close>

lemma py_min_cases: "py_min a b = a \<or> py_min a b = b"
  by (simp add: py_min_def)

lemma py_min_le_right: "a \<noteq> NaN \<Longrightarrow> b \<noteq> NaN \<Longrightarrow> py_le (py_min a b) b"
  by (auto simp: py_min_def intro: py_le_refl py_le_total)

lemma py_min_le_left: "a \<noteq> NaN \<Longrightarrow> py_le (py_min a b) a"
  by (auto simp: py_min_def intro: py_le_refl py_lt_imp_le)

lemma py_min_ge:
  "py_le z a \<Longrightarrow> (py_lt b a \<longrightarrow> py_le z b) \<Longrightarrow> py_le z (py_min a b)"
  by (simp add: py_min_def)

lemma finite_float_cases: "finite_float a \<longleftrightarrow> (\<exists>x. a = Finite x \<and> \<bar>x\<bar> < pow2 1024)"
  by (cases a) simp_all

lemma div100_finite:
  assumes "finite_float a"
  shows "\<exists>y. div100 a = Finite y"
proof -
  from assms obtain x where a: "a = Finite x" and x: "\<bar>x\<bar> < pow2 1024"
    by (auto simp: finite_float_cases)
  have "pow2 1024 = pow2 1023 * 2" using pow2_add[of 1023 1] by (simp add: pow2_def)
  with x have "\<bar>x / 100\<bar> < pow2 1023" using pow2_pos[of 1023] by simp
  then show ?thesis unfolding a by (simp add: fl_finite)
qed

lemma raw_not_NaN:
  assumes "finite_float dv" and "finite_float cv"
  shows "py_mul (div100 dv) cv \<noteq> NaN"
proof -
  from div100_finite[OF assms(1)] obtain y where "div100 dv = Finite y" by blast
  moreover from assms(2) obtain v where "cv = Finite v" by (auto simp: finite_float_cases)
  ultimately show ?thesis by (simp add: fl_not_NaN)
qed

text \<open>Where NaN comes from, and what \<open>min\<close> does with it.\<close>

lemma compute_discount_amount_NaN:
  "compute_discount_amount (example_coupon ''INF'' PERCENT PInf None None None []) (Finite 0) = NaN"
  "compute_discount_amount (example_coupon ''CAP'' PERCENT (Finite 10) (Some NaN) None None [])
     (Finite 100) = py_mul (div100 (Finite 10)) (Finite 100)"
  by (simp_all add: compute_discount_amount_def example_coupon_def py_min_def)

text \<open>Sorting by insertion.\<close>

lemma set_insort_lt: "set (insort_lt lt key x ys) = insert x (set ys)"
  by (induction ys) auto

lemma list_sort_Cons: "list_sort lt key (x # xs) = insort_lt lt key x (list_sort lt key xs)"
  by (simp add: list_sort_def)

lemma set_list_sort: "set (list_sort lt key xs) = set xs"
  by (induction xs) (simp_all add: list_sort_Cons set_insort_lt, simp add: list_sort_def)

lemma hd_insort_lt:
  "hd (insort_lt lt key x ys) = (if ys \<noteq> [] \<and> lt (key (hd ys)) (key x) then hd ys else x)"
  by (cases ys) auto

lemma hd_list_sort_mem: "xs \<noteq> [] \<Longrightarrow> hd (list_sort lt key xs) \<in> set xs"
proof -
  assume "xs \<noteq> []"
  then have "list_sort lt key xs \<noteq> []"
    using set_list_sort[of lt key xs] by (metis set_empty)
  then have "hd (list_sort lt key xs) \<in> set (list_sort lt key xs)" by (rule hd_in_set)
  then show ?thesis by (simp add: set_list_sort)
qed

lemma hd_list_sort_least:
  fixes rank :: "'k \<Rightarrow> 'o::linorder"
  assumes "\<forall>a\<in>set xs. \<forall>b\<in>set xs. lt (key a) (key b) \<longleftrightarrow> rank (key a) < rank (key b)"
    and "x \<in> set xs"
  shows "rank (key (hd (list_sort lt key xs))) \<le> rank (key x)"
  using assms
proof (induction xs arbitrary: x)
  case Nil
  then show ?case by simp
next
  case (Cons y ys)
  show ?case
  proof (cases "ys = []")
    case True
    with Cons.prems show ?thesis by (simp add: list_sort_def)
  next
    case False
    let ?m = "hd (list_sort lt key ys)"
    have m: "?m \<in> set ys" using False by (rule hd_list_sort_mem)
    have ne: "list_sort lt key ys \<noteq> []"
      using False set_list_sort[of lt key ys] by (metis set_empty)
    have IH: "\<forall>z\<in>set ys. rank (key ?m) \<le> rank (key z)"
      using Cons.IH Cons.prems(1) by simp
    have c: "lt (key ?m) (key y) \<longleftrightarrow> rank (key ?m) < rank (key y)"
      using Cons.prems(1) m by simp
    have h: "hd (list_sort lt key (y # ys)) = (if lt (key ?m) (key y) then ?m else y)"
      using ne by (simp add: list_sort_Cons hd_insort_lt)
    show ?thesis
    proof (cases "lt (key ?m) (key y)")
      case True
      with h c IH Cons.prems(2) show ?thesis by auto
    next
      case False
      with c have "rank (key y) \<le> rank (key ?m)" by simp
      with h False IH Cons.prems(2) show ?thesis by auto
    qed
  qed
qed

text \<open>The order of the sort keys.\<close>

lemma float_rank_lt:
  "a \<noteq> NaN \<Longrightarrow> b \<noteq> NaN \<Longrightarrow> py_lt a b \<longleftrightarrow> float_rank a < float_rank b"
  by (cases a; cases b) simp_all

lemma float_rank_eq:
  "a \<noteq> NaN \<Longrightarrow> b \<noteq> NaN \<Longrightarrow> py_eq a b \<longleftrightarrow> float_rank a = float_rank b"
  by (cases a; cases b) (simp_all add: py_eq_def)

lemma key_rank_lt:
  "fst k \<noteq> NaN \<Longrightarrow> fst k' \<noteq> NaN \<Longrightarrow> tuple_lt k k' \<longleftrightarrow> key_rank k < key_rank k'"
  by (cases k; cases k') (auto simp: key_rank_def float_rank_lt float_rank_eq)

lemma py_neg_NaN: "py_neg a = NaN \<longleftrightarrow> a = NaN"
  by (cases a) simp_all

lemma py_neg_lt: "py_lt (py_neg a) (py_neg b) \<longleftrightarrow> py_lt b a"
  by (cases a; cases b) simp_all

lemma py_neg_eq: "py_eq (py_neg a) (py_neg b) \<longleftrightarrow> py_eq b a"
  by (cases a; cases b) (auto simp: py_eq_def)

lemma py_eq_not_lt: "py_eq a b \<Longrightarrow> \<not> py_lt b a"
  by (simp add: py_eq_def py_lt_irrefl)

lemma py_eq_sym: "py_eq a b \<longleftrightarrow> py_eq b a"
  by (auto simp: py_eq_def)

lemma ranks_before_key: "ranks_before p q \<longleftrightarrow> tuple_lt (sort_key_pair p) (sort_key_pair q)"
  by (cases p, cases q)
     (auto simp: ranks_before_def sort_key_pair_def py_neg_lt py_neg_eq py_eq_sym
       dest: py_eq_not_lt)

text \<open>Every candidate is a stored coupon that passed the four gates.\<close>

lemma eligible_loop_sound:
  "eligible_loop fsum clk k u ct cv st = Inr cands \<Longrightarrow> p \<in> set cands \<Longrightarrow>
     \<exists>cd j. (cd, fst p) \<in> set st \<and> k \<le> j \<and> j < k + length st \<and>
       coupon_within_dates (clk j) (fst p) \<and>
       usage_within_limit (fst p) (userId u) \<and>
       eligibility_satisfied fsum (fst p) u ct = Inr True \<and>
       \<not> py_le (compute_discount_amount (fst p) cv) (Finite 0) \<and>
       snd p = py_round2 (compute_discount_amount (fst p) cv)"
proof (induction st arbitrary: k cands)
  case Nil
  then show ?case by simp
next
  case (Cons a st)
  obtain cd c where a: "a = (cd, c)" by (cases a)
  let ?rest = "eligible_loop fsum clk (Suc k) u ct cv st"
  have step: "\<exists>cd j. (cd, fst p) \<in> set (a # st) \<and> k \<le> j \<and> j < k + length (a # st) \<and>
       coupon_within_dates (clk j) (fst p) \<and>
       usage_within_limit (fst p) (userId u) \<and>
       eligibility_satisfied fsum (fst p) u ct = Inr True \<and>
       \<not> py_le (compute_discount_amount (fst p) cv) (Finite 0) \<and>
       snd p = py_round2 (compute_discount_amount (fst p) cv)"
    if r: "?rest = Inr found" and m: "p \<in> set found" for found
  proof -
    from Cons.IH[OF r m] obtain cd' j where
      "(cd', fst p) \<in> set st" "Suc k \<le> j" "j < Suc k + length st"
      "coupon_within_dates (clk j) (fst p)"
      "usage_within_limit (fst p) (userId u)"
      "eligibility_satisfied fsum (fst p) u ct = Inr True"
      "\<not> py_le (compute_discount_amount (fst p) cv) (Finite 0)"
      "snd p = py_round2 (compute_discount_amount (fst p) cv)" by blast
    then show ?thesis by (intro exI[of _ cd'] exI[of _ j]) simp
  qed
  show ?case
  proof (cases "coupon_within_dates (clk k) c \<and> usage_within_limit c (userId u) \<and>
                eligibility_satisfied fsum c u ct = Inr True \<and>
                \<not> py_le (compute_discount_amount c cv) (Finite 0)")
    case True
    with Cons.prems(1) obtain found where r: "?rest = Inr found"
      and cands: "cands = (c, py_round2 (compute_discount_amount c cv)) # found"
      by (auto simp: a Let_def split: sum.splits)
    show ?thesis
    proof (cases "p \<in> set found")
      case True
      then show ?thesis using step[OF r] by blast
    next
      case False
      with Cons.prems(2) cands have p: "p = (c, py_round2 (compute_discount_amount c cv))"
        by simp
      with True show ?thesis by (intro exI[of _ cd] exI[of _ k]) (simp add: a)
    qed
  next
    case False
    with Cons.prems(1) have "?rest = Inr cands"
      by (auto simp: a Let_def split: sum.splits bool.splits if_splits)
    then show ?thesis using step Cons.prems(2) by blast
  qed
qed

text \<open>The loop reads the clock once for each stored coupon and nowhere else.\<close>

lemma eligible_loop_clock:
  "(\<forall>j. k \<le> j \<and> j < k + length st \<longrightarrow> clk j = clk' j) \<Longrightarrow>
   eligible_loop fsum clk k u ct cv st = eligible_loop fsum clk' k u ct cv st"
proof (induction st arbitrary: k)
  case Nil
  then show ?case by simp
next
  case (Cons a st)
  obtain cd c where a: "a = (cd, c)" by (cases a)
  have "eligible_loop fsum clk (Suc k) u ct cv st = eligible_loop fsum clk' (Suc k) u ct cv st"
    using Cons.prems by (intro Cons.IH) auto
  moreover have "clk k = clk' k" using Cons.prems by simp
  ultimately show ?case
    by (simp add: a Let_def split del: if_split cong: sum.case_cong bool.case_cong if_cong)
qed

lemma eligible_loop_distinct:
  "eligible_loop fsum clk k u ct cv st = Inr cands \<Longrightarrow> distinct (map (code \<circ> snd) st) \<Longrightarrow>
   distinct (map (code \<circ> fst) cands)"
proof (induction st arbitrary: k cands)
  case Nil
  then show ?case by simp
next
  case (Cons a st)
  obtain cd c where a: "a = (cd, c)" by (cases a)
  let ?rest = "eligible_loop fsum clk (Suc k) u ct cv st"
  have d: "distinct (map (code \<circ> snd) st)" using Cons.prems(2) by (simp add: comp_def)
  from Cons.prems(1) consider "?rest = Inr cands"
    | found where "?rest = Inr found" "cands = (c, py_round2 (compute_discount_amount c cv)) # found"
    by (auto simp: a Let_def split: sum.splits bool.splits if_splits)
  then show ?case
  proof cases
    case 1
    then show ?thesis using Cons.IH d by blast
  next
    case 2
    have IH: "distinct (map (code \<circ> fst) found)" using Cons.IH[OF 2(1) d] .
    have "code c \<notin> (code \<circ> fst) ` set found"
    proof
      assume "code c \<in> (code \<circ> fst) ` set found"
      then obtain p where p: "p \<in> set found" and cp: "code c = code (fst p)" by auto
      from eligible_loop_sound[OF 2(1) p] obtain cd' where "(cd', fst p) \<in> set st" by blast
      then have "code (fst p) \<in> (code \<circ> snd) ` set st" by force
      with cp Cons.prems(2) show False by (simp add: a)
    qed
    with IH show ?thesis by (simp add: 2(2) comp_def)
  qed
qed

lemma store_wf_codes: "store_wf coupons \<Longrightarrow> distinct (map (code \<circ> snd) coupons)"
proof (induction coupons)
  case Nil
  then show ?case by simp
next
  case (Cons a coupons)
  obtain k c where a: "a = (k, c)" by (cases a)
  from Cons.prems have wf: "store_wf coupons" and k: "k = upper (strip (code c))"
    and fresh: "k \<notin> fst ` set coupons"
    and all: "list_all (\<lambda>(k, c). k = upper (strip (code c))) coupons"
    by (auto simp: store_wf_def a)
  have "code c \<notin> (code \<circ> snd) ` set coupons"
  proof
    assume "code c \<in> (code \<circ> snd) ` set coupons"
    then obtain k' c' where m: "(k', c') \<in> set coupons" and e: "code c = code c'" by auto
    from all m have "k' = upper (strip (code c'))" by (auto simp: list_all_iff)
    with e k have "k' = k" by simp
    with m fresh show False by force
  qed
  with Cons.IH[OF wf] show ?case by (simp add: a comp_def)
qed

text \<open>The first candidate after sorting is one of the candidates.\<close>

lemma sorted_first_mem: "cands \<noteq> [] \<Longrightarrow> sorted_first nan_first cands \<in> set cands"
  by (simp add: sorted_first_def hd_list_sort_mem)

lemma sorted_first_sort:
  "\<forall>p\<in>set cands. snd p \<noteq> NaN \<Longrightarrow>
   sorted_first nan_first cands = hd (list_sort tuple_lt sort_key_pair cands)"
  by (simp add: sorted_first_def list_ex_iff)

text \<open>The outcomes of \<open>best_coupon\<close>.\<close>

lemma best_coupon_store: "snd (best_coupon fsum nan_first clk coupons req) = coupons"
  by (simp add: best_coupon_def Let_def split: prod.splits sum.splits)

lemma best_coupon_clock:
  "eligible_loop fsum clk 1 (user req) (cart req) cv coupons =
   eligible_loop fsum clk' 1 (user req) (cart req) cv coupons \<Longrightarrow>
   compute_cart_value fsum (cart req) = Inr cv \<Longrightarrow>
   best_coupon fsum nan_first clk coupons req = best_coupon fsum nan_first clk' coupons req"
  by (simp add: best_coupon_def Let_def)

lemma best_coupon_overflow:
  "compute_cart_value fsum (cart req) = Inl e \<Longrightarrow>
   best_coupon fsum nan_first clk coupons req = (Inl e, coupons)"
  by (simp add: best_coupon_def Let_def)

lemma best_coupon_some:
  assumes "compute_cart_value fsum (cart req) = Inr cv"
    and "eligible_loop fsum clk 1 (user req) (cart req) cv coupons = Inr cands"
    and "cands \<noteq> []"
    and "\<forall>p\<in>set cands. snd p \<noteq> NaN"
  shows "\<exists>w\<in>set cands.
           fst (best_coupon fsum nan_first clk coupons req) =
             Inr \<lparr>coupon = Some (pop ''usage_count'' (CouponStored_dict (fst w))),
                  discountAmount = Some (snd w), reason = Some ''OK''\<rparr> \<and>
           (\<forall>q\<in>set cands. key_rank (sort_key_pair w) \<le> key_rank (sort_key_pair q))"
proof -
  let ?w = "hd (list_sort tuple_lt sort_key_pair cands)"
  have mem: "?w \<in> set cands" using assms(3) by (rule hd_list_sort_mem)
  have nn: "fst (sort_key_pair p) \<noteq> NaN" if "p \<in> set cands" for p
    using assms(4) that by (cases p) (auto simp: sort_key_pair_def py_neg_NaN)
  have enc: "\<forall>a\<in>set cands. \<forall>b\<in>set cands.
      tuple_lt (sort_key_pair a) (sort_key_pair b) \<longleftrightarrow>
      key_rank (sort_key_pair a) < key_rank (sort_key_pair b)"
    using nn by (simp add: key_rank_lt)
  have least: "\<forall>q\<in>set cands. key_rank (sort_key_pair ?w) \<le> key_rank (sort_key_pair q)"
    using hd_list_sort_least[where lt = tuple_lt and key = sort_key_pair
        and rank = key_rank and xs = cands, OF enc] by blast
  have no: "sorted_first nan_first cands = ?w" using assms(4) by (rule sorted_first_sort)
  have "fst (best_coupon fsum nan_first clk coupons req) =
          Inr \<lparr>coupon = Some (pop ''usage_count'' (CouponStored_dict (fst ?w))),
               discountAmount = Some (snd ?w), reason = Some ''OK''\<rparr>"
    using assms(1,2,3) no by (simp add: best_coupon_def Let_def split: prod.splits)
  with mem least show ?thesis by blast
qed

lemma best_coupon_winner:
  assumes "fst (best_coupon fsum nan_first clk coupons req) = Inr resp" and "coupon resp = Some d"
  shows "\<exists>cv cands. compute_cart_value fsum (cart req) = Inr cv \<and>
           eligible_loop fsum clk 1 (user req) (cart req) cv coupons = Inr cands \<and>
           (\<exists>w\<in>set cands. d = pop ''usage_count'' (CouponStored_dict (fst w)))"
proof -
  from assms(1) obtain cv where cv: "compute_cart_value fsum (cart req) = Inr cv"
    by (cases "compute_cart_value fsum (cart req)") (auto simp: best_coupon_overflow)
  from assms(1) cv obtain cands
    where l: "eligible_loop fsum clk 1 (user req) (cart req) cv coupons = Inr cands"
    by (cases "eligible_loop fsum clk 1 (user req) (cart req) cv coupons")
       (auto simp: best_coupon_def Let_def)
  have ne: "cands \<noteq> []"
    using assms cv l by (auto simp: best_coupon_def Let_def)
  let ?w = "sorted_first nan_first cands"
  have mem: "?w \<in> set cands" using ne by (rule sorted_first_mem)
  have "d = pop ''usage_count'' (CouponStored_dict (fst ?w))"
    using assms cv l ne
    by (auto simp: best_coupon_def Let_def split: if_splits prod.splits)
  with cv l mem show ?thesis by blast
qed

lemma pop_usage_count:
  "pop ''usage_count'' (CouponStored_dict c) =
     [(''code'', VStr (code c)),
      (''description'', opt VStr (description c)),
      (''discountType'', VDiscountType (discountType c)),
      (''discountValue'', VFloat (discountValue c)),
      (''maxDiscountAmount'', opt VFloat (maxDiscountAmount c)),
      (''startDate'', VDatetime (startDate c)),
      (''endDate'', VDatetime (endDate c)),
      (''usageLimitPerUser'', opt VInt (usageLimitPerUser c)),
      (''eligibility'', opt (\<lambda>e. VDict (Eligibility_dict e)) (eligibility c)),
      (''id'', VStr (coupon_id c))]"
  by (simp add: pop_def CouponStored_dict_def AList.delete_eq)

text \<open>Finite inputs give amounts that are numbers.\<close>

lemma compute_discount_amount_not_NaN:
  assumes "finite_float (discountValue c)" and "finite_float cv"
  shows "compute_discount_amount c cv \<noteq> NaN"
proof -
  have a: "discountValue c \<noteq> NaN" "cv \<noteq> NaN" using assms by (auto simp: finite_float_cases)
  have r: "py_mul (div100 (discountValue c)) cv \<noteq> NaN" using assms by (rule raw_not_NaN)
  show ?thesis
    using a r by (auto simp: compute_discount_amount_def py_min_def Let_def
        split: option.splits dest: py_lt_not_NaN)
qed

text \<open>Finite discount values and a finite cart value give candidates without NaN.\<close>

lemma eligible_loop_not_NaN:
  assumes "eligible_loop fsum clk k u ct cv st = Inr cands"
    and "finite_float cv"
    and "\<forall>c\<in>snd ` set st. finite_float (discountValue c)"
  shows "\<forall>p\<in>set cands. snd p \<noteq> NaN"
proof
  fix p assume p: "p \<in> set cands"
  from eligible_loop_sound[OF assms(1) p] obtain cd where m: "(cd, fst p) \<in> set st"
    and r: "snd p = py_round2 (compute_discount_amount (fst p) cv)" by blast
  from m assms(3) have "finite_float (discountValue (fst p))" by force
  then have "compute_discount_amount (fst p) cv \<noteq> NaN"
    using assms(2) by (rule compute_discount_amount_not_NaN)
  then show "snd p \<noteq> NaN" unfolding r by (rule py_round2_not_NaN)
qed

lemma best_coupon_eval:
  assumes "compute_cart_value fsum (cart req) = Inr cv"
    and "eligible_loop fsum clk 1 (user req) (cart req) cv coupons = Inr cands"
    and "cands \<noteq> []"
    and "\<not> list_ex (\<lambda>p. snd p = NaN) cands"
    and "hd (list_sort tuple_lt sort_key_pair cands) = (c, a)"
  shows "best_coupon fsum nan_first clk coupons req =
           (Inr \<lparr>coupon = Some (pop ''usage_count'' (CouponStored_dict c)),
                 discountAmount = Some a, reason = Some ''OK''\<rparr>, coupons)"
  using assms by (simp add: best_coupon_def Let_def sorted_first_def)

text \<open>Rounding to two decimals leaves an integer as it is.\<close>

lemma py_round2_int: "\<bar>n\<bar> < 2 ^ 53 \<Longrightarrow> py_round2 (Finite (of_int n)) = Finite (of_int n)"
proof -
  assume n: "\<bar>n\<bar> < 2 ^ 53"
  have "round_even (of_int n * 100) = n * 100"
    using round_even_int[of "n * 100"] by simp
  then show ?thesis using fl_int[OF n] by simp
qed

text \<open>The example stores, evaluated.\<close>

lemma normalized_examples:
  "upper (strip ''b'') = ''B''"
  "upper (strip ''C'') = ''C''"
  "upper (strip ''SAVE50'') = ''SAVE50''"
  "upper (strip ''A100'') = ''A100''"
  "upper (strip ''Z100'') = ''Z100''"
  "upper (strip '' save50 '') = ''SAVE50''"
  "upper (strip ''P15'') = ''P15''"
  "upper (strip ''F8'') = ''F8''"
  by code_simp+

lemma store_bC_eq:
  "store_bC =
     [(''B'', example_coupon ''b'' FLAT (Finite 100) None None None []),
      (''C'', example_coupon ''C'' FLAT (Finite 100) None None None [])]"
  by (simp add: store_bC_def create_coupon_def Let_def normalized_examples example_in_def
      example_coupon_def CouponIn.extend_def CouponStored.fields_def)

lemma store_ties_eq:
  "store_ties =
     [(''SAVE50'', example_coupon ''SAVE50'' FLAT (Finite 50) None None None []),
      (''A100'',
       (example_coupon ''A100'' FLAT (Finite (25601 / 256)) None None None [])\<lparr>endDate := 20\<rparr>),
      (''Z100'', example_coupon ''Z100'' FLAT (Finite 100) None None None [])]"
  by (simp add: store_ties_def create_coupon_def Let_def normalized_examples example_in_def
      example_coupon_def CouponIn.extend_def CouponStored.fields_def)

lemma store_percent_eq:
  "store_percent =
     [(''P15'', example_coupon ''P15'' PERCENT (Finite 15) None None None []),
      (''F8'', example_coupon ''F8'' FLAT (Finite (5 / 64)) None None None [])]"
  by (simp add: store_percent_def create_coupon_def Let_def normalized_examples example_in_def
      example_coupon_def CouponIn.extend_def CouponStored.fields_def)

lemma example_req_sel:
  "user (example_req x q) = example_user" "cart (example_req x q) = example_cart x q"
  "userId example_user = ''u1''"
  by (simp_all add: example_req_def example_user_def)

lemma example_cart_half:
  "compute_cart_value sum_left (example_cart (Finite (1 / 2)) 1) = Inr (Finite (1 / 2))"
proof -
  have "fl (1 / 2) = Finite (1 / 2)"
    by (simp add: fl_def expo_def pow2_def round_even_def compute_bitlen Let_def)
  then show ?thesis
    using int_to_float_small[of 1]
    by (simp add: compute_cart_value_def example_cart_def sum_left_def)
qed

lemma example_gates:
  "coupon_within_dates n (example_coupon cd ty dv cap ulim el l) \<longleftrightarrow> 0 \<le> n \<and> n \<le> 10"
  "eligibility_satisfied fsum (example_coupon cd ty dv cap ulim None l) u ct = Inr True"
  "compute_discount_amount (example_coupon cd FLAT dv cap ulim el l) x = py_min x dv"
  "usage_within_limit (example_coupon cd ty dv cap (Some k) el l) uid \<longleftrightarrow> get0 l uid < k"
  "usage_within_limit (example_coupon cd ty dv cap None el l) uid"
  by (simp_all add: coupon_within_dates_def eligibility_satisfied_def
      compute_discount_amount_def usage_within_limit_def example_coupon_def)

lemma example_gates_end:
  "coupon_within_dates n ((example_coupon cd ty dv cap ulim el l)\<lparr>endDate := e\<rparr>) \<longleftrightarrow>
     0 \<le> n \<and> n \<le> e"
  "eligibility_satisfied fsum ((example_coupon cd ty dv cap ulim None l)\<lparr>endDate := e\<rparr>) u ct =
     Inr True"
  "compute_discount_amount ((example_coupon cd FLAT dv cap ulim el l)\<lparr>endDate := e\<rparr>) x =
     py_min x dv"
  "usage_within_limit ((example_coupon cd ty dv cap None el l)\<lparr>endDate := e\<rparr>) uid"
  by (simp_all add: coupon_within_dates_def eligibility_satisfied_def
      compute_discount_amount_def usage_within_limit_def example_coupon_def)

lemma example_amounts:
  "py_round2 (py_min (Finite 600) (Finite 100)) = Finite 100"
  "py_round2 (py_min (Finite 600) (Finite 50)) = Finite 50"
  "py_round2 (py_min (Finite 600) (Finite (25601 / 256))) = Finite 100"
  "\<not> py_le (py_min (Finite 600) (Finite 100)) (Finite 0)"
  "\<not> py_le (py_min (Finite 600) (Finite 50)) (Finite 0)"
  "\<not> py_le (py_min (Finite 600) (Finite (25601 / 256))) (Finite 0)"
proof -
  have m: "py_min (Finite 600) (Finite 100) = Finite 100"
    "py_min (Finite 600) (Finite 50) = Finite 50"
    "py_min (Finite 600) (Finite (25601 / 256)) = Finite (25601 / 256)"
    by (simp_all add: py_min_def)
  have "round_even (25601 / 256 * 100) = 10000" by (simp add: round_even_def Let_def)
  then have "py_round2 (Finite (25601 / 256)) = Finite 100"
    using fl_int[of 100] by simp
  then show "py_round2 (py_min (Finite 600) (Finite (25601 / 256))) = Finite 100"
    by (simp add: m)
  show "py_round2 (py_min (Finite 600) (Finite 100)) = Finite 100"
    using py_round2_int[of 100] by (simp add: m)
  show "py_round2 (py_min (Finite 600) (Finite 50)) = Finite 50"
    using py_round2_int[of 50] by (simp add: m)
  show "\<not> py_le (py_min (Finite 600) (Finite 100)) (Finite 0)"
    "\<not> py_le (py_min (Finite 600) (Finite 50)) (Finite 0)"
    "\<not> py_le (py_min (Finite 600) (Finite (25601 / 256))) (Finite 0)"
    by (simp_all add: m py_le_def py_eq_def)
qed

lemma store_bC_candidates:
  "eligible_loop sum_left (\<lambda>_. 5) (Suc 0) example_user (example_cart (Finite 600) 1)
     (Finite 600) store_bC =
   Inr [(example_coupon ''b'' FLAT (Finite 100) None None None [], Finite 100),
        (example_coupon ''C'' FLAT (Finite 100) None None None [], Finite 100)]"
  by (simp add: store_bC_eq example_gates example_amounts)

lemma store_ties_candidates:
  "eligible_loop sum_left (\<lambda>_. 5) (Suc 0) example_user (example_cart (Finite 600) 1)
     (Finite 600) store_ties =
   Inr [(example_coupon ''SAVE50'' FLAT (Finite 50) None None None [], Finite 50),
        ((example_coupon ''A100'' FLAT (Finite (25601 / 256)) None None None [])
           \<lparr>endDate := 20\<rparr>, Finite 100),
        (example_coupon ''Z100'' FLAT (Finite 100) None None None [], Finite 100)]"
  by (simp add: store_ties_eq example_gates example_gates_end example_amounts)

lemma store_ties_candidates_late:
  "eligible_loop sum_left (\<lambda>j. if j \<le> Suc 0 then 5 else 21) (Suc 0) example_user
     (example_cart (Finite 600) 1) (Finite 600) store_ties =
   Inr [(example_coupon ''SAVE50'' FLAT (Finite 50) None None None [], Finite 50)]"
  by (simp add: store_ties_eq example_gates example_gates_end example_amounts)

lemma store_wf_examples: "store_wf store_bC" "store_wf store_ties"
  by (simp_all add: store_wf_def store_bC_eq store_ties_eq example_coupon_def normalized_examples)

lemma store_ties_best:
  "best_coupon sum_left (\<lambda>_. 0) (\<lambda>_. 5) store_ties (example_req (Finite 600) 1) =
     (Inr \<lparr>coupon = Some (pop ''usage_count''
                 (CouponStored_dict (example_coupon ''Z100'' FLAT (Finite 100) None None None []))),
           discountAmount = Some (Finite 100), reason = Some ''OK''\<rparr>, store_ties)"
proof (rule best_coupon_eval)
  show "compute_cart_value sum_left (cart (example_req (Finite 600) 1)) = Inr (Finite 600)"
    by (simp add: example_req_sel example_cart_600)
  show "eligible_loop sum_left (\<lambda>_. 5) 1 (user (example_req (Finite 600) 1))
          (cart (example_req (Finite 600) 1)) (Finite 600) store_ties =
        Inr [(example_coupon ''SAVE50'' FLAT (Finite 50) None None None [], Finite 50),
             ((example_coupon ''A100'' FLAT (Finite (25601 / 256)) None None None [])
                \<lparr>endDate := 20\<rparr>, Finite 100),
             (example_coupon ''Z100'' FLAT (Finite 100) None None None [], Finite 100)]"
    by (simp add: example_req_sel store_ties_candidates)
  show "hd (list_sort tuple_lt sort_key_pair
          [(example_coupon ''SAVE50'' FLAT (Finite 50) None None None [], Finite 50),
           ((example_coupon ''A100'' FLAT (Finite (25601 / 256)) None None None [])
              \<lparr>endDate := 20\<rparr>, Finite 100),
           (example_coupon ''Z100'' FLAT (Finite 100) None None None [], Finite 100)]) =
        (example_coupon ''Z100'' FLAT (Finite 100) None None None [], Finite 100)"
    by (simp add: list_sort_def sort_key_pair_def example_coupon_def py_eq_def)
qed simp_all

lemma store_ties_best_late:
  "best_coupon sum_left (\<lambda>_. 0) (\<lambda>j. if j \<le> 1 then 5 else 21) store_ties (example_req (Finite 600) 1) =
     (Inr \<lparr>coupon = Some (pop ''usage_count''
                 (CouponStored_dict (example_coupon ''SAVE50'' FLAT (Finite 50) None None None []))),
           discountAmount = Some (Finite 50), reason = Some ''OK''\<rparr>, store_ties)"
proof (rule best_coupon_eval)
  show "compute_cart_value sum_left (cart (example_req (Finite 600) 1)) = Inr (Finite 600)"
    by (simp add: example_req_sel example_cart_600)
  show "eligible_loop sum_left (\<lambda>j. if j \<le> 1 then 5 else 21) 1 (user (example_req (Finite 600) 1))
          (cart (example_req (Finite 600) 1)) (Finite 600) store_ties =
        Inr [(example_coupon ''SAVE50'' FLAT (Finite 50) None None None [], Finite 50)]"
    by (simp add: example_req_sel store_ties_candidates_late)
  show "hd (list_sort tuple_lt sort_key_pair
          [(example_coupon ''SAVE50'' FLAT (Finite 50) None None None [], Finite 50)]) =
        (example_coupon ''SAVE50'' FLAT (Finite 50) None None None [], Finite 50)"
    by (simp add: list_sort_def)
qed simp_all

text \<open>
  15 percent of 0.5 is 0.075 on paper. In doubles 15 / 100 is a little below 0.15, the
  product a little below 0.075, and it rounds to 0.07; the flat 0.078125 rounds to 0.08
  and wins.
\<close>

lemma store_percent_amounts:
  "py_round2 (compute_discount_amount
     (example_coupon ''P15'' PERCENT (Finite 15) None None None []) (Finite (1 / 2))) =
   fl (7 / 100)"
  "py_round2 (compute_discount_amount
     (example_coupon ''F8'' FLAT (Finite (5 / 64)) None None None []) (Finite (1 / 2))) =
   fl (8 / 100)"
  "fl (7 / 100) = Finite (1261007895663739 / 2 ^ 54)"
  "fl (8 / 100) = Finite (5764607523034235 / 2 ^ 56)"
  "\<not> py_le (compute_discount_amount
     (example_coupon ''P15'' PERCENT (Finite 15) None None None []) (Finite (1 / 2))) (Finite 0)"
  "\<not> py_le (compute_discount_amount
     (example_coupon ''F8'' FLAT (Finite (5 / 64)) None None None []) (Finite (1 / 2))) (Finite 0)"
proof -
  have raw: "py_mul (div100 (Finite 15)) (Finite (1 / 2)) = Finite (5404319552844595 / 2 ^ 56)"
    by (simp add: fl_def expo_def pow2_def round_even_def compute_bitlen Let_def)
  have p: "compute_discount_amount
     (example_coupon ''P15'' PERCENT (Finite 15) None None None []) (Finite (1 / 2)) =
     Finite (5404319552844595 / 2 ^ 56)"
    unfolding compute_discount_amount_def Let_def
    by (simp add: example_coupon_def raw del: py_mul.simps div100.simps)
  have f: "compute_discount_amount
     (example_coupon ''F8'' FLAT (Finite (5 / 64)) None None None []) (Finite (1 / 2)) =
     Finite (5 / 64)"
    by (simp add: example_gates py_min_def)
  have r7: "round_even (5404319552844595 / 2 ^ 56 * 100) = 7"
    by (simp add: round_even_def Let_def)
  have r8: "round_even (5 / 64 * 100) = 8"
    by (simp add: round_even_def Let_def)
  show "py_round2 (compute_discount_amount
     (example_coupon ''P15'' PERCENT (Finite 15) None None None []) (Finite (1 / 2))) =
   fl (7 / 100)"
    unfolding p py_round2.simps r7 by simp
  show "py_round2 (compute_discount_amount
     (example_coupon ''F8'' FLAT (Finite (5 / 64)) None None None []) (Finite (1 / 2))) =
   fl (8 / 100)"
    unfolding f py_round2.simps r8 by simp
  show "fl (7 / 100) = Finite (1261007895663739 / 2 ^ 54)"
    by (simp add: fl_def expo_def pow2_def round_even_def compute_bitlen Let_def)
  show "fl (8 / 100) = Finite (5764607523034235 / 2 ^ 56)"
    by (simp add: fl_def expo_def pow2_def round_even_def compute_bitlen Let_def)
  show "\<not> py_le (compute_discount_amount
     (example_coupon ''P15'' PERCENT (Finite 15) None None None []) (Finite (1 / 2))) (Finite 0)"
    unfolding p by (simp add: py_le_def py_eq_def)
  show "\<not> py_le (compute_discount_amount
     (example_coupon ''F8'' FLAT (Finite (5 / 64)) None None None []) (Finite (1 / 2))) (Finite 0)"
    unfolding f by (simp add: py_le_def py_eq_def)
qed

lemma store_percent_candidates:
  "eligible_loop sum_left (\<lambda>_. 5) (Suc 0) example_user (example_cart (Finite (1 / 2)) 1)
     (Finite (1 / 2)) store_percent =
   Inr [(example_coupon ''P15'' PERCENT (Finite 15) None None None [], fl (7 / 100)),
        (example_coupon ''F8'' FLAT (Finite (5 / 64)) None None None [], fl (8 / 100))]"
  unfolding store_percent_eq
  by (simp add: example_gates(1,2,5) store_percent_amounts(1,2,5,6) Let_def
      del: py_round2.simps)

lemma store_percent_best:
  "best_coupon sum_left (\<lambda>_. 0) (\<lambda>_. 5) store_percent (example_req (Finite (1 / 2)) 1) =
     (Inr \<lparr>coupon = Some (pop ''usage_count''
                 (CouponStored_dict (example_coupon ''F8'' FLAT (Finite (5 / 64)) None None None []))),
           discountAmount = Some (fl (8 / 100)), reason = Some ''OK''\<rparr>, store_percent)"
proof (rule best_coupon_eval)
  show "compute_cart_value sum_left (cart (example_req (Finite (1 / 2)) 1)) = Inr (Finite (1 / 2))"
    by (simp add: example_req_sel example_cart_half)
  show "eligible_loop sum_left (\<lambda>_. 5) 1 (user (example_req (Finite (1 / 2)) 1))
          (cart (example_req (Finite (1 / 2)) 1)) (Finite (1 / 2)) store_percent =
   Inr [(example_coupon ''P15'' PERCENT (Finite 15) None None None [], fl (7 / 100)),
        (example_coupon ''F8'' FLAT (Finite (5 / 64)) None None None [], fl (8 / 100))]"
    by (simp add: example_req_sel store_percent_candidates)
  show "hd (list_sort tuple_lt sort_key_pair
          [(example_coupon ''P15'' PERCENT (Finite 15) None None None [], fl (7 / 100)),
           (example_coupon ''F8'' FLAT (Finite (5 / 64)) None None None [], fl (8 / 100))]) =
        (example_coupon ''F8'' FLAT (Finite (5 / 64)) None None None [], fl (8 / 100))"
    unfolding store_percent_amounts(3,4)
    by (simp add: list_sort_def sort_key_pair_def py_eq_def)
  show "\<not> list_ex (\<lambda>p. snd p = NaN)
          [(example_coupon ''P15'' PERCENT (Finite 15) None None None [], fl (7 / 100)),
           (example_coupon ''F8'' FLAT (Finite (5 / 64)) None None None [], fl (8 / 100))]"
    by (simp add: fl_not_NaN)
qed simp

text \<open>Association lists.\<close>

lemma get0_update: "get0 (AList.update k v al) k' = (if k' = k then v else get0 al k')"
  by (simp add: get0_def update_conv')

lemma update_fresh: "k \<notin> fst ` set al \<Longrightarrow> AList.update k v al = al @ [(k, v)]"
  by (induction al) auto

lemma list_all_update:
  "list_all P al \<Longrightarrow> P (k, v) \<Longrightarrow> list_all P (AList.update k v al)"
  by (induction al) auto

lemma ledger_get0: "list_all (\<lambda>(u, n). 0 \<le> n) l \<Longrightarrow> 0 \<le> get0 l uid"
  by (auto simp: get0_def list_all_iff split: option.splits dest!: map_of_SomeD)

lemma ledger_ok_get0:
  "ledger_ok coupons \<Longrightarrow> (k, c) \<in> set coupons \<Longrightarrow> 0 \<le> get0 (usage_count c) uid"
  by (rule ledger_get0) (auto simp: ledger_ok_def list_all_iff)





text \<open>The branches of \<open>redeem\<close>.\<close>

lemma redeem_not_found:
  "map_of coupons (upper (strip cd)) = None \<Longrightarrow>
   redeem fsum n coupons cd req = (Inl (HTTPException 404 ''Coupon not found''), coupons)"
  by (simp add: redeem_def)

lemma redeem_found:
  "map_of coupons (upper (strip cd)) = Some c \<Longrightarrow>
   redeem fsum n coupons cd req =
     (if \<not> coupon_within_dates n c
      then (Inl (HTTPException 400 ''Coupon not valid right now (date window)''), coupons)
      else if \<not> usage_within_limit c (userId (user req))
      then (Inl (HTTPException 400 ''Usage limit reached for this user''), coupons)
      else
        case eligibility_satisfied fsum c (user req) (cart req) of
          Inl e \<Rightarrow> (Inl e, coupons)
        | Inr False \<Rightarrow>
            (Inl (HTTPException 400 ''Eligibility criteria not satisfied''), coupons)
        | Inr True \<Rightarrow>
            (case compute_cart_value fsum (cart req) of
               Inl e \<Rightarrow> (Inl e, coupons)
             | Inr cart_value \<Rightarrow>
                 if py_le (compute_discount_amount c cart_value) (Finite 0)
                 then (Inl (HTTPException 400 ''Coupon yields zero discount for this cart''),
                       coupons)
                 else (Inr [(''message'', VStr ''Redeemed''), (''coupon'', VStr (code c)),
                            (''discountAmount'',
                             VFloat (py_round2 (compute_discount_amount c cart_value)))],
                       AList.update (upper (strip cd))
                         (c\<lparr>usage_count :=
                              AList.update (userId (user req))
                                (get0 (usage_count c) (userId (user req)) + 1)
                                (usage_count c)\<rparr>)
                         coupons)))"
  by (simp add: redeem_def Let_def split del: if_split
      cong: sum.case_cong bool.case_cong if_cong)

lemma redeem_failure_store:
  "isl (fst (redeem fsum n coupons cd req)) \<Longrightarrow> snd (redeem fsum n coupons cd req) = coupons"
  by (cases "map_of coupons (upper (strip cd))")
     (auto simp: redeem_not_found redeem_found split: if_splits sum.splits bool.splits)

lemma redeem_success:
  assumes "redeem fsum n coupons cd req = (Inr r, coupons')"
    and "map_of coupons (upper (strip cd)) = Some c"
  shows "map_of coupons' (upper (strip cd)) =
           Some (c\<lparr>usage_count :=
                   AList.update (userId (user req))
                     (get0 (usage_count c) (userId (user req)) + 1) (usage_count c)\<rparr>)"
  using assms
  by (auto simp: redeem_found update_conv' split: if_splits sum.splits bool.splits)

lemma redeem_seq_count:
  assumes "redeem_seq fsum coupons cd reqs = Some coupons'"
    and "map_of coupons (upper (strip cd)) = Some c"
    and "\<forall>r\<in>set reqs. userId (user (snd r)) = uid"
  shows "\<exists>c'. map_of coupons' (upper (strip cd)) = Some c' \<and>
              c'\<lparr>usage_count := usage_count c\<rparr> = c \<and>
              get0 (usage_count c') uid = get0 (usage_count c) uid + int (length reqs)"
  using assms
proof (induction reqs arbitrary: coupons c)
  case Nil
  then show ?case by simp
next
  case (Cons a reqs)
  obtain n req where a: "a = (n, req)" by (cases a)
  from Cons.prems(1) obtain r st1 where r: "redeem fsum n coupons cd req = (Inr r, st1)"
    and seq: "redeem_seq fsum st1 cd reqs = Some coupons'"
    by (auto simp: a split: prod.splits sum.splits)
  let ?c1 = "c\<lparr>usage_count :=
                 AList.update (userId (user req))
                   (get0 (usage_count c) (userId (user req)) + 1) (usage_count c)\<rparr>"
  have m1: "map_of st1 (upper (strip cd)) = Some ?c1"
    using redeem_success[OF r Cons.prems(2)] .
  have u: "userId (user req) = uid" using Cons.prems(3) by (simp add: a)
  have rest: "\<forall>r\<in>set reqs. userId (user (snd r)) = uid" using Cons.prems(3) by simp
  from Cons.IH[OF seq m1 rest] obtain c' where c': "map_of coupons' (upper (strip cd)) = Some c'"
    and same: "c'\<lparr>usage_count := usage_count ?c1\<rparr> = ?c1"
    and cnt: "get0 (usage_count c') uid = get0 (usage_count ?c1) uid + int (length reqs)"
    by blast
  from same have "c'\<lparr>usage_count := usage_count c\<rparr> = c"
    by (metis CouponStored.surjective CouponStored.update_convs(2))
  moreover from cnt u have "get0 (usage_count c') uid = get0 (usage_count c) uid + int (length (a # reqs))"
    by (simp add: get0_update)
  ultimately show ?case using c' by blast
qed

text \<open>Both invariants hold of the empty store and are kept by the two mutating endpoints.\<close>

lemma create_coupon_invariants:
  "store_wf [] \<and> ledger_ok [] \<and>
   (store_wf coupons \<longrightarrow> store_wf (snd (create_coupon coupons uuid cin))) \<and>
   (ledger_ok coupons \<longrightarrow> ledger_ok (snd (create_coupon coupons uuid cin)))"
  by (auto simp: store_wf_def ledger_ok_def create_coupon_def Let_def update_fresh
      CouponIn.extend_def CouponStored.fields_def)

lemma redeem_invariants:
  "(store_wf coupons \<longrightarrow> store_wf (snd (redeem fsum n coupons cd req))) \<and>
   (ledger_ok coupons \<longrightarrow> ledger_ok (snd (redeem fsum n coupons cd req)))"
proof (cases "map_of coupons (upper (strip cd))")
  case None
  then show ?thesis by (simp add: redeem_not_found)
next
  case (Some c)
  have mem: "(upper (strip cd), c) \<in> set coupons" using Some by (rule map_of_SomeD)
  have wf: "store_wf (AList.update (upper (strip cd)) (c\<lparr>usage_count := l\<rparr>) coupons)"
    if "store_wf coupons" for l
  proof -
    from that mem have "upper (strip cd) = upper (strip (code c))"
      by (auto simp: store_wf_def list_all_iff)
    with that show ?thesis
      by (auto simp: store_wf_def distinct_update intro!: list_all_update)
  qed
  have ok: "ledger_ok (AList.update (upper (strip cd))
              (c\<lparr>usage_count := AList.update uid (get0 (usage_count c) uid + 1) (usage_count c)\<rparr>)
              coupons)"
    if "ledger_ok coupons" for uid
  proof -
    from that mem have l: "list_all (\<lambda>(u, n). 0 \<le> n) (usage_count c)"
      by (auto simp: ledger_ok_def list_all_iff)
    then have "0 \<le> get0 (usage_count c) uid" by (rule ledger_get0)
    with l have "list_all (\<lambda>(u, n). 0 \<le> n)
        (AList.update uid (get0 (usage_count c) uid + 1) (usage_count c))"
      by (intro list_all_update) auto
    with that show ?thesis
      unfolding ledger_ok_def by (intro list_all_update) auto
  qed
  show ?thesis using wf ok
    by (simp add: redeem_found[OF Some] split: sum.splits bool.splits)
qed

lemma opt_VInt_zero: "opt VInt x = VInt 0 \<longleftrightarrow> x = Some 0"
  by (cases x) auto

text \<open>More example stores, evaluated.\<close>

lemma normalized_more:
  "upper (strip ''ONCE'') = ''ONCE''"
  "upper (strip ''NEVER'') = ''NEVER''"
  "upper (strip ''NOPE'') = ''NOPE''"
  "upper (strip '' z100 '') = ''Z100''"
  by code_simp+

lemma store_once_eq:
  "store_once = [(''ONCE'', example_coupon ''ONCE'' FLAT (Finite 100) None (Some 1) None [])]"
  by (simp add: store_once_def create_coupon_def Let_def normalized_more example_in_def
      example_coupon_def CouponIn.extend_def CouponStored.fields_def)

lemma store_never_eq:
  "store_never = [(''NEVER'', example_coupon ''NEVER'' FLAT (Finite 100) None (Some 0) None [])]"
  by (simp add: store_never_def create_coupon_def Let_def normalized_more example_in_def
      example_coupon_def CouponIn.extend_def CouponStored.fields_def)

lemma store_once_redeem:
  "redeem sum_left 5 store_once ''ONCE'' (example_req (Finite 600) 1) =
     (Inr [(''message'', VStr ''Redeemed''), (''coupon'', VStr ''ONCE''),
           (''discountAmount'', VFloat (Finite 100))],
      [(''ONCE'', example_coupon ''ONCE'' FLAT (Finite 100) None (Some 1) None [(''u1'', 1)])])"
proof -
  have m: "map_of [(''ONCE'', example_coupon ''ONCE'' FLAT (Finite 100) None (Some 1) None [])]
             (upper (strip ''ONCE'')) =
           Some (example_coupon ''ONCE'' FLAT (Finite 100) None (Some 1) None [])"
    by (simp add: normalized_more)
  show ?thesis
    unfolding store_once_eq
    by (simp add: redeem_found[OF m] example_gates example_req_sel example_cart_600
        example_amounts get0_def normalized_more)
       (simp add: example_coupon_def)
qed

lemma store_once_seq:
  "redeem_seq sum_left store_once ''ONCE'' [(5, example_req (Finite 600) 1)] =
     Some [(''ONCE'', example_coupon ''ONCE'' FLAT (Finite 100) None (Some 1) None [(''u1'', 1)])]"
  by (simp add: store_once_redeem)

lemma store_once_lookup:
  "map_of store_once (upper (strip ''ONCE'')) =
     Some (example_coupon ''ONCE'' FLAT (Finite 100) None (Some 1) None [])"
  by (simp add: store_once_eq normalized_more)

lemma store_once_used_lookup:
  "map_of [(''ONCE'', example_coupon ''ONCE'' FLAT (Finite 100) None (Some 1) None [(''u1'', 1)])]
     (upper (strip ''ONCE'')) =
   Some (example_coupon ''ONCE'' FLAT (Finite 100) None (Some 1) None [(''u1'', 1)])"
  by (simp add: normalized_more)

lemma store_never_lookup:
  "map_of store_never (upper (strip ''NEVER'')) =
     Some (example_coupon ''NEVER'' FLAT (Finite 100) None (Some 0) None [])"
  by (simp add: store_never_eq normalized_more)


lemma ledger_ok_examples: "ledger_ok store_never" "ledger_ok store_ties"
  by (simp_all add: ledger_ok_def store_never_eq store_ties_eq example_coupon_def)


text \<open>
  An amount that is NaN is not \<open><= 0\<close>: an infinite \<open>discountValue\<close> on an empty cart is
  redeemed, with the amount NaN.
\<close>

lemma redeem_nan_amount:
  "redeem fsum 5 [(''INF'', example_coupon ''INF'' PERCENT PInf None None None [])] ''INF''
     \<lparr>user = example_user, cart = \<lparr>items = []\<rparr>\<rparr> =
   (Inr [(''message'', VStr ''Redeemed''), (''coupon'', VStr ''INF''),
         (''discountAmount'', VFloat NaN)],
    [(''INF'', example_coupon ''INF'' PERCENT PInf None None None [(''u1'', 1)])])"
proof -
  have n: "upper (strip ''INF'') = ''INF''" by code_simp
  have m: "map_of [(''INF'', example_coupon ''INF'' PERCENT PInf None None None [])]
             (upper (strip ''INF'')) =
           Some (example_coupon ''INF'' PERCENT PInf None None None [])"
    by (simp add: n)
  have d: "compute_discount_amount (example_coupon ''INF'' PERCENT PInf None None None [])
             (Finite 0) = NaN"
    by (simp add: compute_discount_amount_def example_coupon_def)
  show ?thesis
    by (simp add: redeem_found[OF m] example_gates compute_cart_value_def d n
        py_le_def py_eq_def example_user_def get0_def)
       (simp add: example_coupon_def)
qed

subsection \<open>Eligibility lists\<close>

text \<open>
  C1, as the specification states it: a coupon whose eligibility carries a present but
  empty \<open>allowedUserTiers\<close> or \<open>allowedCountries\<close> list is refused for every user and cart.
  The source tests the lists by truthiness (\<open>if e.allowedUserTiers and ...\<close>), so an empty
  list is skipped like \<open>None\<close>. Here both lists are present and empty, and the check passes.
\<close>

theorem eligibility_empty_lists_pass:
  "allowedUserTiers (no_eligibility\<lparr>allowedUserTiers := Some [], allowedCountries := Some []\<rparr>)
     = Some [] \<and>
   allowedCountries (no_eligibility\<lparr>allowedUserTiers := Some [], allowedCountries := Some []\<rparr>)
     = Some [] \<and>
   eligibility_satisfied sum_left
     (example_coupon ''X'' FLAT (Finite 100) None None
        (Some (no_eligibility\<lparr>allowedUserTiers := Some [], allowedCountries := Some []\<rparr>)) [])
     example_user (example_cart (Finite 600) 1) = Inr True"
  by (simp add: eligibility_satisfied_iff example_coupon_def no_eligibility_def example_cart_600)

text \<open>
  C1, amended: a present but empty \<open>allowedUserTiers\<close> or \<open>allowedCountries\<close> list imposes no
  restriction, the check gives the result it gives with the list absent; a present list
  with at least one entry refuses every user whose tier (country) is not in it.
\<close>

theorem eligibility_empty_list_as_absent:
  "(allowedUserTiers e = Some [] \<longrightarrow>
      eligibility_satisfied fsum (c\<lparr>eligibility := Some e\<rparr>) u ct =
      eligibility_satisfied fsum (c\<lparr>eligibility := Some (e\<lparr>allowedUserTiers := None\<rparr>)\<rparr>) u ct) \<and>
   (allowedCountries e = Some [] \<longrightarrow>
      eligibility_satisfied fsum (c\<lparr>eligibility := Some e\<rparr>) u ct =
      eligibility_satisfied fsum (c\<lparr>eligibility := Some (e\<lparr>allowedCountries := None\<rparr>)\<rparr>) u ct) \<and>
   (\<forall>x xs. allowedUserTiers e = Some (x # xs) \<and> \<not> py_in (userTier u) (x # xs) \<longrightarrow>
      eligibility_satisfied fsum (c\<lparr>eligibility := Some e\<rparr>) u ct = Inr False) \<and>
   (\<forall>x xs. allowedCountries e = Some (x # xs) \<and> \<not> py_in (country u) (x # xs) \<longrightarrow>
      eligibility_satisfied fsum (c\<lparr>eligibility := Some e\<rparr>) u ct = Inr False)"
  by (simp add: eligibility_satisfied_iff split del: if_split cong: if_cong sum.case_cong)

theorem eligibility_empty_list_as_absent_witness:
  "eligibility_satisfied sum_left
     (example_coupon ''X'' FLAT (Finite 100) None None
        (Some (no_eligibility\<lparr>allowedUserTiers := Some []\<rparr>)) [])
     example_user (example_cart (Finite 600) 1) =
   eligibility_satisfied sum_left
     (example_coupon ''X'' FLAT (Finite 100) None None (Some no_eligibility) [])
     example_user (example_cart (Finite 600) 1) \<and>
   eligibility_satisfied sum_left
     (example_coupon ''X'' FLAT (Finite 100) None None
        (Some (no_eligibility\<lparr>allowedUserTiers := Some [''GOLD'']\<rparr>)) [])
     example_user (example_cart (Finite 600) 1) = Inr False"
  using eligibility_empty_list_as_absent
    [of "no_eligibility\<lparr>allowedUserTiers := Some []\<rparr>" sum_left
        "example_coupon ''X'' FLAT (Finite 100) None None None []" example_user
        "example_cart (Finite 600) 1"]
    eligibility_empty_list_as_absent
    [of "no_eligibility\<lparr>allowedUserTiers := Some [''GOLD'']\<rparr>" sum_left
        "example_coupon ''X'' FLAT (Finite 100) None None None []" example_user
        "example_cart (Finite 600) 1"]
  by (simp add: example_coupon_def no_eligibility_def example_user_def)

subsection \<open>The discount amount\<close>


text \<open>
  C5, as the specification states it: the amount is never negative for a cart value that is
  not negative. \<open>maxDiscountAmount\<close> is an unconstrained optional float, and a PERCENT coupon
  with a negative cap yields that cap.
\<close>

theorem compute_discount_amount_negative_cap:
  "py_le (Finite 0) (Finite 100) \<and>
   py_lt (Finite 0)
     (discountValue (example_coupon ''NEG'' PERCENT (Finite 10) (Some (Finite (- 5))) None None [])) \<and>
   compute_discount_amount
     (example_coupon ''NEG'' PERCENT (Finite 10) (Some (Finite (- 5))) None None []) (Finite 100)
     = Finite (- 5) \<and>
   \<not> py_le (Finite 0) (Finite (- 5))"
proof -
  have "py_mul (div100 (Finite 10)) (Finite 100) \<noteq> NaN"
    by (intro raw_not_NaN) (simp_all add: pow2_def)
  then have "py_le (Finite 0) (py_mul (div100 (Finite 10)) (Finite 100))"
    by (intro py_mul_ge_zero div100_ge_zero) (simp_all add: py_le_zero_cases)
  then have "py_lt (Finite (- 5)) (py_mul (div100 (Finite 10)) (Finite 100))"
    by (auto simp: py_le_zero_cases)
  then show ?thesis
    by (simp add: compute_discount_amount_def example_coupon_def py_min_def py_le_zero_cases)
qed

text \<open>
  C5, amended: for a coupon (its discount value positive) and a cart value that is not
  negative and not NaN, a FLAT coupon gives an amount between 0 and the cart value. For a
  PERCENT coupon whose raw amount \<open>(discountValue / 100) * cartValue\<close> is a number (not
  NaN): the amount is at most \<open>maxDiscountAmount\<close> when that is set and is not NaN, and the
  amount is not negative when \<open>maxDiscountAmount\<close> is absent, NaN or not negative. The raw
  amount is a number whenever discount value and cart value are finite; it is NaN for an
  infinite discount value on a cart value of 0, and \<open>min\<close> ignores a cap that is NaN.
\<close>

theorem compute_discount_amount_bounds:
  assumes "py_le (Finite 0) cart_value" and "py_lt (Finite 0) (discountValue c)"
  shows "(discountType c = FLAT \<longrightarrow>
            py_le (Finite 0) (compute_discount_amount c cart_value) \<and>
            py_le (compute_discount_amount c cart_value) cart_value) \<and>
         (discountType c = PERCENT \<and> py_mul (div100 (discountValue c)) cart_value \<noteq> NaN \<longrightarrow>
            (\<forall>m. maxDiscountAmount c = Some m \<and> m \<noteq> NaN \<longrightarrow>
               py_le (compute_discount_amount c cart_value) m) \<and>
            (maxDiscountAmount c = None \<or> maxDiscountAmount c = Some NaN \<or>
             (\<exists>m. maxDiscountAmount c = Some m \<and> py_le (Finite 0) m) \<longrightarrow>
               py_le (Finite 0) (compute_discount_amount c cart_value))) \<and>
         (finite_float (discountValue c) \<and> finite_float cart_value \<longrightarrow>
            py_mul (div100 (discountValue c)) cart_value \<noteq> NaN)"
proof (intro conjI impI allI)
  have cv: "cart_value \<noteq> NaN" using assms(1) by (auto dest: py_le_not_NaN)
  have dv: "py_le (Finite 0) (discountValue c)" using assms(2) by (rule py_lt_imp_le)
  {
    assume "discountType c = FLAT"
    then have a: "compute_discount_amount c cart_value = py_min cart_value (discountValue c)"
      by (simp add: compute_discount_amount_def)
    show "py_le (Finite 0) (compute_discount_amount c cart_value)"
      unfolding a using assms(1) dv by (intro py_min_ge) simp_all
    show "py_le (compute_discount_amount c cart_value) cart_value"
      unfolding a using cv by (rule py_min_le_left)
  }
  {
    assume p: "discountType c = PERCENT \<and> py_mul (div100 (discountValue c)) cart_value \<noteq> NaN"
    let ?raw = "py_mul (div100 (discountValue c)) cart_value"
    have raw: "py_le (Finite 0) ?raw"
      using p assms(1) dv by (intro py_mul_ge_zero div100_ge_zero) simp_all
    {
      fix m assume m: "maxDiscountAmount c = Some m \<and> m \<noteq> NaN"
      then have a: "compute_discount_amount c cart_value = py_min ?raw m"
        using p by (simp add: compute_discount_amount_def)
      show "py_le (compute_discount_amount c cart_value) m"
        unfolding a using p m by (intro py_min_le_right) simp_all
    }
    {
      assume h: "maxDiscountAmount c = None \<or> maxDiscountAmount c = Some NaN \<or>
             (\<exists>m. maxDiscountAmount c = Some m \<and> py_le (Finite 0) m)"
      show "py_le (Finite 0) (compute_discount_amount c cart_value)"
        using h p raw
        by (auto simp: compute_discount_amount_def py_min_def Let_def)
    }
  }
  {
    assume "finite_float (discountValue c) \<and> finite_float cart_value"
    then show "py_mul (div100 (discountValue c)) cart_value \<noteq> NaN"
      by (simp add: raw_not_NaN)
  }
qed

theorem compute_discount_amount_bounds_witness:
  "py_le (Finite 0) (Finite 6000) \<and>
   py_lt (Finite 0)
     (discountValue (example_coupon ''GOLD10'' PERCENT (Finite 10) (Some (Finite 500)) None None [])) \<and>
   py_le (compute_discount_amount
            (example_coupon ''GOLD10'' PERCENT (Finite 10) (Some (Finite 500)) None None [])
            (Finite 6000)) (Finite 500) \<and>
   py_le (Finite 0)
     (compute_discount_amount
        (example_coupon ''GOLD10'' PERCENT (Finite 10) (Some (Finite 500)) None None [])
        (Finite 6000))"
proof -
  let ?c = "example_coupon ''GOLD10'' PERCENT (Finite 10) (Some (Finite 500)) None None []"
  have h1: "py_le (Finite 0) (Finite 6000)" by (simp add: py_le_zero_cases)
  have h2: "py_lt (Finite 0) (discountValue ?c)" by (simp add: example_coupon_def)
  have t: "discountType ?c = PERCENT" and m: "maxDiscountAmount ?c = Some (Finite 500)"
    by (simp_all add: example_coupon_def)
  have f: "finite_float (discountValue ?c) \<and> finite_float (Finite 6000)"
    by (simp add: example_coupon_def pow2_def)
  note T = compute_discount_amount_bounds[OF h1 h2]
  from T f have r: "py_mul (div100 (discountValue ?c)) (Finite 6000) \<noteq> NaN" by blast
  from T t r m have "py_le (compute_discount_amount ?c (Finite 6000)) (Finite 500)" by blast
  moreover have "py_le (Finite 0) (Finite 500)" by (simp add: py_le_zero_cases)
  with T t r m have "py_le (Finite 0) (compute_discount_amount ?c (Finite 6000))" by blast
  ultimately show ?thesis using h1 h2 by blast
qed

subsection \<open>The winner of \<open>best_coupon\<close>\<close>

text \<open>
  C2, as the specification states it: among candidates with equal rounded amount and equal
  \<open>endDate\<close>, the one with the smaller normalized (trimmed, upper-cased) code wins.
  \<open>create_coupon\<close> normalizes only the key of the store; the coupon keeps the code as it was
  sent, and the sort key of \<open>best_coupon\<close> is that stored \<open>c.code\<close>. Two coupons created with
  the codes \<open>b\<close> and \<open>C\<close>, same amount and same \<open>endDate\<close>: \<open>B\<close> is before \<open>C\<close>, yet \<open>C\<close> wins,
  since the character \<open>C\<close> is before \<open>b\<close>.
\<close>

theorem best_coupon_raw_code_order:
  "eligible_loop sum_left (\<lambda>_. 5) 1 (user (example_req (Finite 600) 1))
       (cart (example_req (Finite 600) 1)) (Finite 600) store_bC =
     Inr [(example_coupon ''b'' FLAT (Finite 100) None None None [], Finite 100),
          (example_coupon ''C'' FLAT (Finite 100) None None None [], Finite 100)] \<and>
   endDate (example_coupon ''b'' FLAT (Finite 100) None None None []) =
     endDate (example_coupon ''C'' FLAT (Finite 100) None None None []) \<and>
   upper (strip (code (example_coupon ''b'' FLAT (Finite 100) None None None []))) <
     upper (strip (code (example_coupon ''C'' FLAT (Finite 100) None None None []))) \<and>
   fst (best_coupon sum_left (\<lambda>_. 0) (\<lambda>_. 5) store_bC (example_req (Finite 600) 1)) =
     Inr \<lparr>coupon = Some (pop ''usage_count''
                 (CouponStored_dict (example_coupon ''C'' FLAT (Finite 100) None None None []))),
          discountAmount = Some (Finite 100), reason = Some ''OK''\<rparr>"
proof -
  have cv: "compute_cart_value sum_left (cart (example_req (Finite 600) 1)) = Inr (Finite 600)"
    by (simp add: example_req_sel example_cart_600)
  have c: "eligible_loop sum_left (\<lambda>_. 5) 1 (user (example_req (Finite 600) 1))
       (cart (example_req (Finite 600) 1)) (Finite 600) store_bC =
     Inr [(example_coupon ''b'' FLAT (Finite 100) None None None [], Finite 100),
          (example_coupon ''C'' FLAT (Finite 100) None None None [], Finite 100)]"
    by (simp add: example_req_sel store_bC_candidates)
  have k: "hd (list_sort tuple_lt sort_key_pair
       [(example_coupon ''b'' FLAT (Finite 100) None None None [], Finite 100),
        (example_coupon ''C'' FLAT (Finite 100) None None None [], Finite 100)]) =
       (example_coupon ''C'' FLAT (Finite 100) None None None [], Finite 100)"
    by (simp add: list_sort_def sort_key_pair_def example_coupon_def py_eq_def)
  have b: "fst (best_coupon sum_left (\<lambda>_. 0) (\<lambda>_. 5) store_bC (example_req (Finite 600) 1)) =
     Inr \<lparr>coupon = Some (pop ''usage_count''
                 (CouponStored_dict (example_coupon ''C'' FLAT (Finite 100) None None None []))),
          discountAmount = Some (Finite 100), reason = Some ''OK''\<rparr>"
    by (simp add: best_coupon_eval[OF cv c _ _ k])
  have n: "upper (strip (code (example_coupon ''b'' FLAT (Finite 100) None None None []))) <
     upper (strip (code (example_coupon ''C'' FLAT (Finite 100) None None None [])))"
    by (simp add: example_coupon_def normalized_examples)
  have e: "endDate (example_coupon ''b'' FLAT (Finite 100) None None None []) =
     endDate (example_coupon ''C'' FLAT (Finite 100) None None None [])"
    by (simp add: example_coupon_def)
  from c e n b show ?thesis by blast
qed

text \<open>
  C2, amended: whenever a candidate survives and no candidate's amount is NaN (with NaN
  among the sort keys, \<open><\<close> is no order), \<open>best_coupon\<close> answers with a surviving
  candidate \<open>w\<close> and its amount. The amount of every candidate is \<open>round(discount, 2)\<close>
  of the amount \<open>compute_discount_amount\<close> gives for the cart value: for a finite amount
  \<open>x\<close>, the double nearest to \<open>k / 100\<close>, where \<open>k\<close> is the integer nearest to \<open>100 * x\<close>,
  the even one when two are equally near. No candidate ranks before \<open>w\<close> in the order with
  the three keys: higher rounded amount, then earlier \<open>endDate\<close>, then smaller code as
  stored (not normalized). In a store where every coupon sits under its normalized code,
  \<open>w\<close> ranks strictly before every other candidate, so the winner is unique. In the
  instance that follows, the flat amounts 100.00390625 and 100 are both rounded to 100, and
  the earlier \<open>endDate\<close> decides.
\<close>

theorem best_coupon_ranking:
  assumes "compute_cart_value fsum (cart req) = Inr cv"
    and "eligible_loop fsum clk 1 (user req) (cart req) cv coupons = Inr cands"
    and "cands \<noteq> []"
    and "\<forall>p\<in>set cands. snd p \<noteq> NaN"
  shows "\<exists>w\<in>set cands.
           fst (best_coupon fsum nan_first clk coupons req) =
             Inr \<lparr>coupon = Some (pop ''usage_count'' (CouponStored_dict (fst w))),
                  discountAmount = Some (snd w), reason = Some ''OK''\<rparr> \<and>
           (\<forall>q\<in>set cands.
              snd q = py_round2 (compute_discount_amount (fst q) cv) \<and>
              (\<forall>x. compute_discount_amount (fst q) cv = Finite x \<longrightarrow>
                 (\<exists>k. \<bar>x * 100 - of_int k\<bar> \<le> 1 / 2 \<and>
                      (\<bar>x * 100 - of_int k\<bar> = 1 / 2 \<longrightarrow> even k) \<and>
                      snd q = fl (of_int k / 100)))) \<and>
           (\<forall>q\<in>set cands. \<not> ranks_before q w) \<and>
           (store_wf coupons \<longrightarrow> (\<forall>q\<in>set cands. q \<noteq> w \<longrightarrow> ranks_before w q))"
proof -
  from best_coupon_some[OF assms] obtain w where w: "w \<in> set cands"
    and resp: "fst (best_coupon fsum nan_first clk coupons req) =
             Inr \<lparr>coupon = Some (pop ''usage_count'' (CouponStored_dict (fst w))),
                  discountAmount = Some (snd w), reason = Some ''OK''\<rparr>"
    and least: "\<forall>q\<in>set cands. key_rank (sort_key_pair w) \<le> key_rank (sort_key_pair q)"
    by blast
  have nn: "fst (sort_key_pair p) \<noteq> NaN" if "p \<in> set cands" for p
    using assms(4) that by (cases p) (auto simp: sort_key_pair_def py_neg_NaN)
  have rounded: "\<forall>q\<in>set cands.
              snd q = py_round2 (compute_discount_amount (fst q) cv) \<and>
              (\<forall>x. compute_discount_amount (fst q) cv = Finite x \<longrightarrow>
                 (\<exists>k. \<bar>x * 100 - of_int k\<bar> \<le> 1 / 2 \<and>
                      (\<bar>x * 100 - of_int k\<bar> = 1 / 2 \<longrightarrow> even k) \<and>
                      snd q = fl (of_int k / 100)))"
  proof (intro ballI conjI allI impI)
    fix q assume q: "q \<in> set cands"
    from eligible_loop_sound[OF assms(2) q]
    show r: "snd q = py_round2 (compute_discount_amount (fst q) cv)" by blast
    fix x assume "compute_discount_amount (fst q) cv = Finite x"
    with r have "snd q = py_round2 (Finite x)" by simp
    then show "\<exists>k. \<bar>x * 100 - of_int k\<bar> \<le> 1 / 2 \<and>
                      (\<bar>x * 100 - of_int k\<bar> = 1 / 2 \<longrightarrow> even k) \<and>
                      snd q = fl (of_int k / 100)"
      using py_round2_finite[of x] by simp
  qed
  have nb: "\<forall>q\<in>set cands. \<not> ranks_before q w"
  proof
    fix q assume q: "q \<in> set cands"
    with least have "\<not> key_rank (sort_key_pair q) < key_rank (sort_key_pair w)" by auto
    then show "\<not> ranks_before q w"
      using nn[OF q] nn[OF w] by (simp add: ranks_before_key key_rank_lt)
  qed
  have strict: "\<forall>q\<in>set cands. q \<noteq> w \<longrightarrow> ranks_before w q" if wf: "store_wf coupons"
  proof (intro ballI impI)
    fix q assume q: "q \<in> set cands" and ne: "q \<noteq> w"
    have "distinct (map (code \<circ> fst) cands)"
      using eligible_loop_distinct[OF assms(2) store_wf_codes[OF wf]] .
    then have "inj_on (code \<circ> fst) (set cands)" by (simp add: distinct_map)
    with q w ne have "(code \<circ> fst) q \<noteq> (code \<circ> fst) w" by (meson inj_onD)
    then have "code (fst q) \<noteq> code (fst w)" by simp
    then have "key_rank (sort_key_pair q) \<noteq> key_rank (sort_key_pair w)"
      by (cases q, cases w) (simp add: sort_key_pair_def key_rank_def)
    with least q have "key_rank (sort_key_pair w) < key_rank (sort_key_pair q)" by force
    then show "ranks_before w q"
      using nn[OF q] nn[OF w] by (simp add: ranks_before_key key_rank_lt)
  qed
  from w resp rounded nb strict show ?thesis by blast
qed

theorem best_coupon_ranking_witness:
  "store_wf store_ties \<and>
   compute_cart_value sum_left (cart (example_req (Finite 600) 1)) = Inr (Finite 600) \<and>
   eligible_loop sum_left (\<lambda>_. 5) 1 (user (example_req (Finite 600) 1))
       (cart (example_req (Finite 600) 1)) (Finite 600) store_ties =
     Inr [(example_coupon ''SAVE50'' FLAT (Finite 50) None None None [], Finite 50),
          ((example_coupon ''A100'' FLAT (Finite (25601 / 256)) None None None [])
             \<lparr>endDate := 20\<rparr>, Finite 100),
          (example_coupon ''Z100'' FLAT (Finite 100) None None None [], Finite 100)] \<and>
   (\<exists>w\<in>set [(example_coupon ''SAVE50'' FLAT (Finite 50) None None None [], Finite 50),
             ((example_coupon ''A100'' FLAT (Finite (25601 / 256)) None None None [])
                \<lparr>endDate := 20\<rparr>, Finite 100),
             (example_coupon ''Z100'' FLAT (Finite 100) None None None [], Finite 100)].
      fst (best_coupon sum_left (\<lambda>_. 0) (\<lambda>_. 5) store_ties (example_req (Finite 600) 1)) =
        Inr \<lparr>coupon = Some (pop ''usage_count'' (CouponStored_dict (fst w))),
             discountAmount = Some (snd w), reason = Some ''OK''\<rparr> \<and>
      (\<forall>q\<in>set [(example_coupon ''SAVE50'' FLAT (Finite 50) None None None [], Finite 50),
                ((example_coupon ''A100'' FLAT (Finite (25601 / 256)) None None None [])
                   \<lparr>endDate := 20\<rparr>, Finite 100),
                (example_coupon ''Z100'' FLAT (Finite 100) None None None [], Finite 100)].
         snd q = py_round2 (compute_discount_amount (fst q) (Finite 600)) \<and>
         (q \<noteq> w \<longrightarrow> ranks_before w q)))"
proof -
  let ?cands = "[(example_coupon ''SAVE50'' FLAT (Finite 50) None None None [], Finite 50),
          ((example_coupon ''A100'' FLAT (Finite (25601 / 256)) None None None [])
             \<lparr>endDate := 20\<rparr>, Finite 100),
          (example_coupon ''Z100'' FLAT (Finite 100) None None None [], Finite 100)]"
  have cv: "compute_cart_value sum_left (cart (example_req (Finite 600) 1)) = Inr (Finite 600)"
    by (simp add: example_req_sel example_cart_600)
  have c: "eligible_loop sum_left (\<lambda>_. 5) 1 (user (example_req (Finite 600) 1))
       (cart (example_req (Finite 600) 1)) (Finite 600) store_ties = Inr ?cands"
    by (simp add: example_req_sel store_ties_candidates)
  have ne: "?cands \<noteq> []" by simp
  have nn: "\<forall>p\<in>set ?cands. snd p \<noteq> NaN" by simp
  have wf: "store_wf store_ties" by (rule store_wf_examples)
  from best_coupon_ranking[OF cv c ne nn] obtain w where w: "w \<in> set ?cands"
    and r: "fst (best_coupon sum_left (\<lambda>_. 0) (\<lambda>_. 5) store_ties (example_req (Finite 600) 1)) =
        Inr \<lparr>coupon = Some (pop ''usage_count'' (CouponStored_dict (fst w))),
             discountAmount = Some (snd w), reason = Some ''OK''\<rparr>"
    and a: "\<forall>q\<in>set ?cands. snd q = py_round2 (compute_discount_amount (fst q) (Finite 600))"
    and s: "store_wf store_ties \<longrightarrow> (\<forall>q\<in>set ?cands. q \<noteq> w \<longrightarrow> ranks_before w q)"
    by blast
  from s wf have s': "\<forall>q\<in>set ?cands. q \<noteq> w \<longrightarrow> ranks_before w q" by blast
  from a s' have "\<forall>q\<in>set ?cands.
         snd q = py_round2 (compute_discount_amount (fst q) (Finite 600)) \<and>
         (q \<noteq> w \<longrightarrow> ranks_before w q)" by blast
  with w r have "\<exists>w\<in>set ?cands.
      fst (best_coupon sum_left (\<lambda>_. 0) (\<lambda>_. 5) store_ties (example_req (Finite 600) 1)) =
        Inr \<lparr>coupon = Some (pop ''usage_count'' (CouponStored_dict (fst w))),
             discountAmount = Some (snd w), reason = Some ''OK''\<rparr> \<and>
      (\<forall>q\<in>set ?cands.
         snd q = py_round2 (compute_discount_amount (fst q) (Finite 600)) \<and>
         (q \<noteq> w \<longrightarrow> ranks_before w q))" by blast
  with wf cv c show ?thesis by (intro conjI)
qed

subsection \<open>Repeating \<open>best_coupon\<close>\<close>

text \<open>
  C8, as the specification states it: with user, cart and \<open>now\<close> fixed, repeated calls
  return the same winner and amount, time entering through the input \<open>now\<close> alone.
  \<open>best_coupon\<close> has no such input: it reads the clock into \<open>now\<close> and never uses the
  value, and \<open>coupon_within_dates\<close> reads the clock again for every coupon. Two calls with
  the same request on the same store, both with \<open>now\<close> = 5 (reading 0): in the first the
  clock stays at 5 and \<open>Z100\<close> wins with 100; in the second it has moved to 21 when the
  second and third coupon are checked, both are past their \<open>endDate\<close>, and \<open>SAVE50\<close> wins
  with 50.
\<close>

theorem best_coupon_clock_moves:
  "fst (best_coupon sum_left (\<lambda>_. 0) (\<lambda>_. 5) store_ties (example_req (Finite 600) 1)) =
     Inr \<lparr>coupon = Some (pop ''usage_count''
                 (CouponStored_dict (example_coupon ''Z100'' FLAT (Finite 100) None None None []))),
          discountAmount = Some (Finite 100), reason = Some ''OK''\<rparr> \<and>
   snd (best_coupon sum_left (\<lambda>_. 0) (\<lambda>_. 5) store_ties (example_req (Finite 600) 1)) = store_ties \<and>
   fst (best_coupon sum_left (\<lambda>_. 0) (\<lambda>j. if j \<le> 1 then 5 else 21)
          (snd (best_coupon sum_left (\<lambda>_. 0) (\<lambda>_. 5) store_ties (example_req (Finite 600) 1)))
          (example_req (Finite 600) 1)) =
     Inr \<lparr>coupon = Some (pop ''usage_count''
                 (CouponStored_dict (example_coupon ''SAVE50'' FLAT (Finite 50) None None None []))),
          discountAmount = Some (Finite 50), reason = Some ''OK''\<rparr>"
  unfolding store_ties_best snd_conv fst_conv store_ties_best_late by simp

text \<open>
  C8, amended: \<open>best_coupon\<close> leaves the store (every coupon and every ledger) as it found
  it, and a second call with the same request on that store returns the same response
  whenever the clock readings of the date-window checks agree, coupon by coupon, with those
  of the first call; so it does when the clock stands still. The response depends on time
  through these readings, one for each stored coupon, and not on the reading \<open>now\<close> at the
  start of the call.
\<close>

theorem best_coupon_same_readings:
  assumes "\<forall>j. 1 \<le> j \<and> j \<le> length coupons \<longrightarrow> clk j = clk' j"
  shows "snd (best_coupon fsum nan_first clk coupons req) = coupons \<and>
         best_coupon fsum nan_first clk' (snd (best_coupon fsum nan_first clk coupons req)) req =
         best_coupon fsum nan_first clk coupons req"
proof (cases "compute_cart_value fsum (cart req)")
  case (Inl e)
  then show ?thesis by (simp add: best_coupon_overflow)
next
  case (Inr cv)
  have "eligible_loop fsum clk' 1 (user req) (cart req) cv coupons =
        eligible_loop fsum clk 1 (user req) (cart req) cv coupons"
    using assms by (intro eligible_loop_clock) auto
  then have "best_coupon fsum nan_first clk' coupons req = best_coupon fsum nan_first clk coupons req"
    using Inr by (rule best_coupon_clock)
  then show ?thesis by (simp add: best_coupon_store)
qed

theorem best_coupon_same_readings_witness:
  "snd (best_coupon sum_left (\<lambda>_. 0) (\<lambda>_. 5) store_ties (example_req (Finite 600) 1)) = store_ties \<and>
   best_coupon sum_left (\<lambda>_. 0) (\<lambda>j. if j = 0 then 99 else 5)
     (snd (best_coupon sum_left (\<lambda>_. 0) (\<lambda>_. 5) store_ties (example_req (Finite 600) 1)))
     (example_req (Finite 600) 1) =
   best_coupon sum_left (\<lambda>_. 0) (\<lambda>_. 5) store_ties (example_req (Finite 600) 1)"
proof -
  have h: "\<forall>j. 1 \<le> j \<and> j \<le> length store_ties \<longrightarrow>
             (\<lambda>_. 5::int) j = (\<lambda>j. if j = 0 then 99 else 5) j"
    by simp
  from best_coupon_same_readings[OF h] show ?thesis by blast
qed

subsection \<open>The returned coupon\<close>

text \<open>
  C9: when \<open>best_coupon\<close> returns a coupon, the returned dictionary has no key
  \<open>usage_count\<close>, and it is the dictionary of a stored coupon whatever that coupon's
  ledger holds: no usage count reaches the response.
\<close>

theorem best_coupon_redacts:
  assumes "fst (best_coupon fsum nan_first clk coupons req) = Inr resp" and "coupon resp = Some d"
  shows "''usage_count'' \<notin> fst ` set d \<and>
         (\<exists>c\<in>snd ` set coupons.
            \<forall>ledger. d = pop ''usage_count'' (CouponStored_dict (c\<lparr>usage_count := ledger\<rparr>)))"
proof -
  from best_coupon_winner[OF assms] obtain cv cands w
    where l: "eligible_loop fsum clk 1 (user req) (cart req) cv coupons = Inr cands"
      and w: "w \<in> set cands"
      and d: "d = pop ''usage_count'' (CouponStored_dict (fst w))" by blast
  from eligible_loop_sound[OF l w] obtain cd where "(cd, fst w) \<in> set coupons" by blast
  then have mem: "fst w \<in> snd ` set coupons" by force
  have "''usage_count'' \<notin> fst ` set d" by (simp add: d pop_usage_count)
  moreover have "\<forall>ledger. d = pop ''usage_count'' (CouponStored_dict ((fst w)\<lparr>usage_count := ledger\<rparr>))"
    by (simp add: d pop_usage_count)
  ultimately show ?thesis using mem by blast
qed

theorem best_coupon_redacts_witness:
  "fst (best_coupon sum_left (\<lambda>_. 0) (\<lambda>_. 5) store_ties (example_req (Finite 600) 1)) =
     Inr \<lparr>coupon = Some (pop ''usage_count''
                 (CouponStored_dict (example_coupon ''Z100'' FLAT (Finite 100) None None None []))),
          discountAmount = Some (Finite 100), reason = Some ''OK''\<rparr> \<and>
   ''usage_count'' \<notin>
     fst ` set (pop ''usage_count''
                 (CouponStored_dict (example_coupon ''Z100'' FLAT (Finite 100) None None None []))) \<and>
   (\<exists>c\<in>snd ` set store_ties.
      \<forall>ledger. pop ''usage_count''
                  (CouponStored_dict (example_coupon ''Z100'' FLAT (Finite 100) None None None [])) =
               pop ''usage_count'' (CouponStored_dict (c\<lparr>usage_count := ledger\<rparr>)))"
proof -
  have h: "fst (best_coupon sum_left (\<lambda>_. 0) (\<lambda>_. 5) store_ties (example_req (Finite 600) 1)) =
     Inr \<lparr>coupon = Some (pop ''usage_count''
                 (CouponStored_dict (example_coupon ''Z100'' FLAT (Finite 100) None None None []))),
          discountAmount = Some (Finite 100), reason = Some ''OK''\<rparr>"
    by (simp add: store_ties_best)
  have d: "coupon \<lparr>coupon = Some (pop ''usage_count''
                 (CouponStored_dict (example_coupon ''Z100'' FLAT (Finite 100) None None None []))),
          discountAmount = Some (Finite 100), reason = Some ''OK''\<rparr> =
     Some (pop ''usage_count''
                 (CouponStored_dict (example_coupon ''Z100'' FLAT (Finite 100) None None None [])))"
    by simp
  from best_coupon_redacts[OF h d] h show ?thesis by blast
qed

subsection \<open>Redemption\<close>




text \<open>
  C4, as the specification states it: after \<open>N\<close> successful redemptions by one user of a
  coupon with \<open>usageLimitPerUser = N\<close>, the next attempt of that user fails with the reason
  usage limit. The date window is checked before the usage limit: one redemption at instant
  5 of a coupon with limit 1 that ends at instant 10, then an attempt at instant 11, which
  fails with the reason date window.
\<close>

theorem redeem_after_limit_out_of_window:
  "usageLimitPerUser (example_coupon ''ONCE'' FLAT (Finite 100) None (Some 1) None []) =
     Some (int (length [(5::int, example_req (Finite 600) 1)])) \<and>
   map_of store_once (upper (strip ''ONCE'')) =
     Some (example_coupon ''ONCE'' FLAT (Finite 100) None (Some 1) None []) \<and>
   redeem_seq sum_left store_once ''ONCE'' [(5, example_req (Finite 600) 1)] =
     Some [(''ONCE'', example_coupon ''ONCE'' FLAT (Finite 100) None (Some 1) None [(''u1'', 1)])] \<and>
   fst (redeem sum_left 11
          [(''ONCE'', example_coupon ''ONCE'' FLAT (Finite 100) None (Some 1) None [(''u1'', 1)])]
          ''ONCE'' (example_req (Finite 600) 1)) =
     Inl (HTTPException 400 ''Coupon not valid right now (date window)'') \<and>
   fst (redeem sum_left 11
          [(''ONCE'', example_coupon ''ONCE'' FLAT (Finite 100) None (Some 1) None [(''u1'', 1)])]
          ''ONCE'' (example_req (Finite 600) 1)) \<noteq>
     Inl (HTTPException 400 ''Usage limit reached for this user'')"
proof -
  have a: "usageLimitPerUser (example_coupon ''ONCE'' FLAT (Finite 100) None (Some 1) None []) =
     Some (int (length [(5::int, example_req (Finite 600) 1)]))"
    by (simp add: example_coupon_def)
  have b: "fst (redeem sum_left 11
          [(''ONCE'', example_coupon ''ONCE'' FLAT (Finite 100) None (Some 1) None [(''u1'', 1)])]
          ''ONCE'' (example_req (Finite 600) 1)) =
     Inl (HTTPException 400 ''Coupon not valid right now (date window)'')"
    by (simp add: redeem_found[OF store_once_used_lookup] example_gates)
  have c: "fst (redeem sum_left 11
          [(''ONCE'', example_coupon ''ONCE'' FLAT (Finite 100) None (Some 1) None [(''u1'', 1)])]
          ''ONCE'' (example_req (Finite 600) 1)) \<noteq>
     Inl (HTTPException 400 ''Usage limit reached for this user'')"
    unfolding b by simp
  from a store_once_lookup store_once_seq b c show ?thesis by (intro conjI)
qed

text \<open>
  C4, amended: every failing call of \<open>redeem\<close> leaves the store, hence every ledger, as it
  was. After \<open>N\<close> successful redemptions by one user of a coupon with
  \<open>usageLimitPerUser = N\<close> that the user had not used before, the count of that user is
  \<open>N\<close>, and the next attempt of that user fails and leaves the store as it was: with the
  reason usage limit when the attempt is made inside the date window of the coupon, with
  the reason date window otherwise.
\<close>

theorem redeem_failure_keeps_ledger:
  "(isl (fst (redeem fsum n coupons cd req)) \<longrightarrow> snd (redeem fsum n coupons cd req) = coupons) \<and>
   (map_of coupons (upper (strip cd)) = Some c \<and>
    usageLimitPerUser c = Some (int (length reqs)) \<and>
    get0 (usage_count c) uid = 0 \<and>
    (\<forall>r\<in>set reqs. userId (user (snd r)) = uid) \<and>
    redeem_seq fsum coupons cd reqs = Some coupons' \<and>
    userId (user req') = uid \<longrightarrow>
      (\<exists>c'. map_of coupons' (upper (strip cd)) = Some c' \<and>
            get0 (usage_count c') uid = int (length reqs)) \<and>
      redeem fsum n' coupons' cd req' =
        (Inl (HTTPException 400
               (if coupon_within_dates n' c then ''Usage limit reached for this user''
                else ''Coupon not valid right now (date window)'')),
         coupons'))"
proof (intro conjI impI)
  assume "isl (fst (redeem fsum n coupons cd req))"
  then show "snd (redeem fsum n coupons cd req) = coupons" by (rule redeem_failure_store)
next
  assume h: "map_of coupons (upper (strip cd)) = Some c \<and>
    usageLimitPerUser c = Some (int (length reqs)) \<and>
    get0 (usage_count c) uid = 0 \<and>
    (\<forall>r\<in>set reqs. userId (user (snd r)) = uid) \<and>
    redeem_seq fsum coupons cd reqs = Some coupons' \<and>
    userId (user req') = uid"
  then obtain c' where c': "map_of coupons' (upper (strip cd)) = Some c'"
    and same: "c'\<lparr>usage_count := usage_count c\<rparr> = c"
    and cnt: "get0 (usage_count c') uid = get0 (usage_count c) uid + int (length reqs)"
    using redeem_seq_count[of fsum coupons cd reqs coupons' c uid] by blast
  from cnt h have cnt': "get0 (usage_count c') uid = int (length reqs)" by simp
  with c' show "\<exists>c'. map_of coupons' (upper (strip cd)) = Some c' \<and>
            get0 (usage_count c') uid = int (length reqs)" by blast
  from same have f: "startDate c' = startDate c" "endDate c' = endDate c"
    "usageLimitPerUser c' = usageLimitPerUser c"
    by (metis CouponStored.surjective CouponStored.update_convs(2) CouponIn.select_convs
        CouponStored.select_convs)+
  have lim: "\<not> usage_within_limit c' (userId (user req'))"
    using h cnt' f by (simp add: usage_within_limit_def)
  have win: "coupon_within_dates n' c' = coupon_within_dates n' c"
    using f by (simp add: coupon_within_dates_def)
  show "redeem fsum n' coupons' cd req' =
        (Inl (HTTPException 400
               (if coupon_within_dates n' c then ''Usage limit reached for this user''
                else ''Coupon not valid right now (date window)'')),
         coupons')"
    using lim win by (simp add: redeem_found[OF c'])
qed

theorem redeem_failure_keeps_ledger_witness:
  "isl (fst (redeem sum_left 11 store_once ''ONCE'' (example_req (Finite 600) 1))) \<and>
   snd (redeem sum_left 11 store_once ''ONCE'' (example_req (Finite 600) 1)) = store_once \<and>
   redeem_seq sum_left store_once ''ONCE'' [(5, example_req (Finite 600) 1)] =
     Some [(''ONCE'', example_coupon ''ONCE'' FLAT (Finite 100) None (Some 1) None [(''u1'', 1)])] \<and>
   (\<exists>c'. map_of [(''ONCE'', example_coupon ''ONCE'' FLAT (Finite 100) None (Some 1) None [(''u1'', 1)])]
            (upper (strip ''ONCE'')) = Some c' \<and>
         get0 (usage_count c') ''u1'' = 1) \<and>
   redeem sum_left 6
     [(''ONCE'', example_coupon ''ONCE'' FLAT (Finite 100) None (Some 1) None [(''u1'', 1)])]
     ''ONCE'' (example_req (Finite 600) 1) =
     (Inl (HTTPException 400 ''Usage limit reached for this user''),
      [(''ONCE'', example_coupon ''ONCE'' FLAT (Finite 100) None (Some 1) None [(''u1'', 1)])])"
proof -
  let ?c = "example_coupon ''ONCE'' FLAT (Finite 100) None (Some 1) None []"
  let ?used = "[(''ONCE'', example_coupon ''ONCE'' FLAT (Finite 100) None (Some 1) None [(''u1'', 1)])]"
  let ?req = "example_req (Finite 600) 1"
  have f: "isl (fst (redeem sum_left 11 store_once ''ONCE'' ?req))"
    by (simp add: redeem_found[OF store_once_lookup] example_gates)
  have h1: "usageLimitPerUser ?c = Some (int (length [(5::int, ?req)]))"
    by (simp add: example_coupon_def)
  have h2: "get0 (usage_count ?c) ''u1'' = 0"
    by (simp add: example_coupon_def get0_def)
  have h3: "\<forall>r\<in>set [(5::int, ?req)]. userId (user (snd r)) = ''u1''"
    by (simp add: example_req_sel)
  have h4: "userId (user ?req) = ''u1''"
    by (simp add: example_req_sel)
  have w: "coupon_within_dates 6 ?c"
    by (simp add: example_gates)
  note T = redeem_failure_keeps_ledger
    [where n = 11 and coupons = store_once and cd = "''ONCE''" and req = ?req
       and c = ?c and reqs = "[(5, ?req)]" and uid = "''u1''" and fsum = sum_left
       and coupons' = ?used and req' = ?req and n' = 6]
  from T f have a: "snd (redeem sum_left 11 store_once ''ONCE'' ?req) = store_once"
    by blast
  from T store_once_lookup h1 h2 h3 store_once_seq h4
  have b: "(\<exists>c'. map_of ?used (upper (strip ''ONCE'')) = Some c' \<and>
         get0 (usage_count c') ''u1'' = int (length [(5::int, ?req)])) \<and>
      redeem sum_left 6 ?used ''ONCE'' ?req =
        (Inl (HTTPException 400
               (if coupon_within_dates 6 ?c
                then ''Usage limit reached for this user''
                else ''Coupon not valid right now (date window)'')),
         ?used)"
    by blast
  from b w have b': "(\<exists>c'. map_of ?used (upper (strip ''ONCE'')) = Some c' \<and>
         get0 (usage_count c') ''u1'' = 1) \<and>
      redeem sum_left 6 ?used ''ONCE'' ?req =
        (Inl (HTTPException 400 ''Usage limit reached for this user''), ?used)"
    by simp
  from f a store_once_seq b' show ?thesis by (intro conjI) blast+
qed

subsection \<open>A usage limit of zero\<close>

text \<open>
  C10, as stated: every redemption attempt against a coupon with \<open>usageLimitPerUser = 0\<close>
  fails with the reason usage limit. An attempt at instant 11 against such a coupon that
  ends at instant 10 fails with the reason date window, the check that comes first.
\<close>

theorem redeem_zero_limit_out_of_window:
  "usageLimitPerUser (example_coupon ''NEVER'' FLAT (Finite 100) None (Some 0) None []) = Some 0 \<and>
   map_of store_never (upper (strip ''NEVER'')) =
     Some (example_coupon ''NEVER'' FLAT (Finite 100) None (Some 0) None []) \<and>
   fst (redeem sum_left 11 store_never ''NEVER'' (example_req (Finite 600) 1)) =
     Inl (HTTPException 400 ''Coupon not valid right now (date window)'') \<and>
   fst (redeem sum_left 11 store_never ''NEVER'' (example_req (Finite 600) 1)) \<noteq>
     Inl (HTTPException 400 ''Usage limit reached for this user'')"
proof -
  have a: "usageLimitPerUser (example_coupon ''NEVER'' FLAT (Finite 100) None (Some 0) None []) =
             Some 0"
    by (simp add: example_coupon_def)
  have b: "fst (redeem sum_left 11 store_never ''NEVER'' (example_req (Finite 600) 1)) =
     Inl (HTTPException 400 ''Coupon not valid right now (date window)'')"
    by (simp add: redeem_found[OF store_never_lookup] example_gates)
  have c: "fst (redeem sum_left 11 store_never ''NEVER'' (example_req (Finite 600) 1)) \<noteq>
     Inl (HTTPException 400 ''Usage limit reached for this user'')"
    unfolding b by simp
  from a store_never_lookup b c show ?thesis by (intro conjI)
qed

text \<open>
  C10, amended: for a coupon with \<open>usageLimitPerUser = 0\<close> whose ledger holds no negative
  count, the usage-limit check fails for every user, also one the ledger does not know. In
  a store without negative counts, \<open>best_coupon\<close> never returns a coupon whose
  \<open>usageLimitPerUser\<close> is 0, and every redemption attempt against such a coupon fails
  and leaves the store as it was: with the reason usage limit when made inside the date
  window of the coupon, with the reason date window otherwise.
\<close>

theorem zero_limit_never_redeemable:
  "(usageLimitPerUser c = Some 0 \<and> list_all (\<lambda>(u, n). 0 \<le> n) (usage_count c) \<longrightarrow>
      \<not> usage_within_limit c uid) \<and>
   (ledger_ok coupons \<and> fst (best_coupon fsum nan_first clk coupons req) = Inr resp \<and>
    coupon resp = Some d \<longrightarrow>
      map_of d ''usageLimitPerUser'' \<noteq> Some (VInt 0)) \<and>
   (ledger_ok coupons \<and> map_of coupons (upper (strip cd)) = Some c \<and>
    usageLimitPerUser c = Some 0 \<longrightarrow>
      redeem fsum n coupons cd req =
        (Inl (HTTPException 400
               (if coupon_within_dates n c then ''Usage limit reached for this user''
                else ''Coupon not valid right now (date window)'')),
         coupons))"
proof (intro conjI impI)
  assume "usageLimitPerUser c = Some 0 \<and> list_all (\<lambda>(u, n). 0 \<le> n) (usage_count c)"
  then show "\<not> usage_within_limit c uid"
    using ledger_get0[of "usage_count c" uid] by (simp add: usage_within_limit_def)
next
  assume h: "ledger_ok coupons \<and> fst (best_coupon fsum nan_first clk coupons req) = Inr resp \<and>
    coupon resp = Some d"
  then obtain cv cands w
    where l: "eligible_loop fsum clk 1 (user req) (cart req) cv coupons = Inr cands"
      and w: "w \<in> set cands"
      and d: "d = pop ''usage_count'' (CouponStored_dict (fst w))"
    using best_coupon_winner[of fsum nan_first clk coupons req resp d] by blast
  from eligible_loop_sound[OF l w] obtain k where mem: "(k, fst w) \<in> set coupons"
    and lim: "usage_within_limit (fst w) (userId (user req))" by blast
  from h mem have "0 \<le> get0 (usage_count (fst w)) (userId (user req))"
    using ledger_ok_get0 by blast
  with lim have "usageLimitPerUser (fst w) \<noteq> Some 0"
    by (auto simp: usage_within_limit_def)
  then show "map_of d ''usageLimitPerUser'' \<noteq> Some (VInt 0)"
    by (simp add: d pop_usage_count opt_VInt_zero)
next
  assume h: "ledger_ok coupons \<and> map_of coupons (upper (strip cd)) = Some c \<and>
    usageLimitPerUser c = Some 0"
  then have "(upper (strip cd), c) \<in> set coupons" by (auto dest: map_of_SomeD)
  with h have "0 \<le> get0 (usage_count c) (userId (user req))" using ledger_ok_get0 by blast
  with h have "\<not> usage_within_limit c (userId (user req))"
    by (simp add: usage_within_limit_def)
  with h show "redeem fsum n coupons cd req =
        (Inl (HTTPException 400
               (if coupon_within_dates n c then ''Usage limit reached for this user''
                else ''Coupon not valid right now (date window)'')),
         coupons)"
    by (simp add: redeem_found)
qed

theorem zero_limit_never_redeemable_witness:
  "\<not> usage_within_limit (example_coupon ''NEVER'' FLAT (Finite 100) None (Some 0) None []) ''u1'' \<and>
   map_of (pop ''usage_count''
            (CouponStored_dict (example_coupon ''Z100'' FLAT (Finite 100) None None None [])))
     ''usageLimitPerUser'' \<noteq> Some (VInt 0) \<and>
   redeem sum_left 5 store_never ''NEVER'' (example_req (Finite 600) 1) =
     (Inl (HTTPException 400 ''Usage limit reached for this user''), store_never)"
proof -
  let ?c = "example_coupon ''NEVER'' FLAT (Finite 100) None (Some 0) None []"
  let ?d = "pop ''usage_count''
              (CouponStored_dict (example_coupon ''Z100'' FLAT (Finite 100) None None None []))"
  let ?resp = "\<lparr>coupon = Some ?d, discountAmount = Some (Finite 100), reason = Some ''OK''\<rparr>"
  let ?req = "example_req (Finite 600) 1"
  have h1: "usageLimitPerUser ?c = Some 0 \<and> list_all (\<lambda>(u, n). 0 \<le> n) (usage_count ?c)"
    by (simp add: example_coupon_def)
  have h2: "ledger_ok store_ties \<and>
            fst (best_coupon sum_left (\<lambda>_. 0) (\<lambda>_. 5) store_ties ?req) = Inr ?resp \<and>
            coupon ?resp = Some ?d"
    by (simp add: ledger_ok_examples store_ties_best)
  have h3: "ledger_ok store_never \<and> map_of store_never (upper (strip ''NEVER'')) = Some ?c \<and>
            usageLimitPerUser ?c = Some 0"
    using store_never_lookup by (simp add: ledger_ok_examples) (simp add: example_coupon_def)
  have w: "coupon_within_dates 5 ?c" by (simp add: example_gates)
  note T = zero_limit_never_redeemable
    [where c = ?c and uid = "''u1''" and coupons = store_never and cd = "''NEVER''"
       and n = 5 and req = ?req and fsum = sum_left]
  note B = zero_limit_never_redeemable
    [where coupons = store_ties and clk = "\<lambda>_. 5" and req = ?req and d = ?d
       and fsum = sum_left and nan_first = "\<lambda>_. 0" and resp = ?resp]
  from T h1 have a: "\<not> usage_within_limit ?c ''u1''" by blast
  from B h2 have b: "map_of ?d ''usageLimitPerUser'' \<noteq> Some (VInt 0)" by blast
  from T h3 have "redeem sum_left 5 store_never ''NEVER'' ?req =
        (Inl (HTTPException 400
               (if coupon_within_dates 5 ?c then ''Usage limit reached for this user''
                else ''Coupon not valid right now (date window)'')),
         store_never)" by blast
  with w have c: "redeem sum_left 5 store_never ''NEVER'' ?req =
     (Inl (HTTPException 400 ''Usage limit reached for this user''), store_never)" by simp
  from a b c show ?thesis by (intro conjI)
qed

subsection \<open>Creation\<close>

text \<open>
  C7: \<open>create_coupon\<close> trims and upper-cases the code, and it is this normalized code that
  is looked up and that becomes the key. When the key is taken already, the call fails
  with status 400 and the store stays as it was; otherwise the coupon is appended under
  the key, with the fields of the input and an empty ledger, and no entry that was there
  is touched. Building a \<open>CouponIn\<close> with \<open>endDate < startDate\<close> fails.
\<close>

theorem create_coupon_rejects:
  "(upper (strip (code cin)) \<in> fst ` set coupons \<longrightarrow>
      create_coupon coupons uuid cin =
        (Inl (HTTPException 400
               (''Coupon code '' @ [CHR 0x27] @ upper (strip (code cin)) @ [CHR 0x27] @
                '' already exists.'')),
         coupons)) \<and>
   (upper (strip (code cin)) \<notin> fst ` set coupons \<longrightarrow>
      (\<exists>stored. create_coupon coupons uuid cin =
                  (Inr stored, coupons @ [(upper (strip (code cin)), stored)]) \<and>
                CouponIn.truncate stored = cin \<and> usage_count stored = [])) \<and>
   (endDate raw < startDate raw \<longrightarrow> isl (CouponIn_init raw))"
  by (auto simp: create_coupon_def Let_def update_fresh CouponIn_init_def end_after_start_def
      CouponIn.extend_def CouponStored.fields_def CouponIn.truncate_def)

theorem create_coupon_rejects_witness:
  "upper (strip (code (example_in '' save50 '' PERCENT (Finite 5) None None None))) \<in>
     fst ` set store_ties \<and>
   create_coupon store_ties ''id2'' (example_in '' save50 '' PERCENT (Finite 5) None None None) =
     (Inl (HTTPException 400
            (''Coupon code '' @ [CHR 0x27] @ ''SAVE50'' @ [CHR 0x27] @ '' already exists.'')),
      store_ties) \<and>
   upper (strip (code (example_in ''NOPE'' PERCENT (Finite 5) None None None))) \<notin>
     fst ` set store_ties \<and>
   (\<exists>stored. create_coupon store_ties ''id2'' (example_in ''NOPE'' PERCENT (Finite 5) None None None) =
               (Inr stored, store_ties @ [(''NOPE'', stored)]) \<and>
             CouponIn.truncate stored = example_in ''NOPE'' PERCENT (Finite 5) None None None \<and>
             usage_count stored = []) \<and>
   endDate ((example_in ''NOPE'' PERCENT (Finite 5) None None None)\<lparr>endDate := - 1\<rparr>) <
     startDate ((example_in ''NOPE'' PERCENT (Finite 5) None None None)\<lparr>endDate := - 1\<rparr>) \<and>
   isl (CouponIn_init ((example_in ''NOPE'' PERCENT (Finite 5) None None None)\<lparr>endDate := - 1\<rparr>))"
proof -
  let ?dup = "example_in '' save50 '' PERCENT (Finite 5) None None None"
  let ?new = "example_in ''NOPE'' PERCENT (Finite 5) None None None"
  have h1: "upper (strip (code ?dup)) \<in> fst ` set store_ties"
    by (simp add: example_in_def normalized_examples store_ties_eq)
  have h2: "upper (strip (code ?new)) \<notin> fst ` set store_ties"
    by (simp add: example_in_def normalized_more store_ties_eq)
  have h3: "endDate (?new\<lparr>endDate := - 1\<rparr>) < startDate (?new\<lparr>endDate := - 1\<rparr>)"
    by (simp add: example_in_def)
  have n1: "upper (strip (code ?dup)) = ''SAVE50''"
    by (simp add: example_in_def normalized_examples)
  have n2: "upper (strip (code ?new)) = ''NOPE''"
    by (simp add: example_in_def normalized_more)
  note D = create_coupon_rejects
    [where cin = ?dup and coupons = store_ties and uuid = "''id2''"]
  note F = create_coupon_rejects
    [where cin = ?new and coupons = store_ties and uuid = "''id2''"
       and raw = "?new\<lparr>endDate := - 1\<rparr>"]
  from D h1 have a: "create_coupon store_ties ''id2'' ?dup =
     (Inl (HTTPException 400
            (''Coupon code '' @ [CHR 0x27] @ ''SAVE50'' @ [CHR 0x27] @ '' already exists.'')),
      store_ties)" unfolding n1 by blast
  from F h2 have b: "\<exists>stored. create_coupon store_ties ''id2'' ?new =
               (Inr stored, store_ties @ [(''NOPE'', stored)]) \<and>
             CouponIn.truncate stored = ?new \<and>
             usage_count stored = []" unfolding n2 by blast
  from F h3 have c: "isl (CouponIn_init (?new\<lparr>endDate := - 1\<rparr>))"
    by blast
  from h1 a h2 b h3 c show ?thesis by (intro conjI)
qed

end
